theory Spec2Isabelle
  imports Complex_Main
begin

section \<open>Tabular Q-learning over a quantum-circuit environment (qlearning.py)\<close>

text \<open>
  The development embeds \<^verbatim>\<open>qlearning.py\<close>: the class \<^verbatim>\<open>QuantumEnv\<close>, the class
  \<^verbatim>\<open>QLearningAgent\<close> and the two drivers \<^verbatim>\<open>train_agent\<close> and \<^verbatim>\<open>test_agent\<close>.
  Conventions:
  \<^item> numpy's float64 numbers are idealised as \<^typ>\<open>real\<close> (and complex128 as \<^typ>\<open>complex\<close>);
    Python's unbounded integers are \<^typ>\<open>int\<close>, indices that are never negative are \<^typ>\<open>nat\<close>;
  \<^item> every exception the source can raise is a value \<open>Inl e\<close> of a sum type;
  \<^item> the mutable objects (agent, environment, console) are passed in and returned;
  \<^item> the collaborators that are not part of the file (the text drawing of a circuit, SHA-256,
    the Aer unitary simulator, the random number generator) are parameters.
\<close>

subsection \<open>Exceptions\<close>

datatype error = IndexError | ValueError | TypeError | CircuitError

subsection \<open>Gates, circuits and the action catalogue\<close>

datatype gate = HGate | CXGate | SGate | TGate | XGate | YGate | ZGate

type_synonym instruction = "gate \<times> nat list"

type_synonym quantum_circuit = "instruction list"

text \<open>The list \<^verbatim>\<open>possible_actions\<close> of \<^verbatim>\<open>choose_action\<close>, in the order of the source.\<close>

definition possible_actions :: "instruction list" where
  "possible_actions =
     [(HGate, [0]), (HGate, [1]),
      (CXGate, [0, 1]), (CXGate, [1, 0]),
      (SGate, [0]), (SGate, [1]),
      (TGate, [0]), (TGate, [1]),
      (XGate, [0]), (XGate, [1]),
      (YGate, [0]), (YGate, [1]),
      (ZGate, [0]), (ZGate, [1])]"

subsection \<open>numpy reductions used by the agent\<close>

text \<open>
  \<^verbatim>\<open>np.max\<close> of a one-dimensional array: the largest entry; \<^verbatim>\<open>ValueError\<close> on an empty
  array.
\<close>

definition np_max :: "real list \<Rightarrow> error + real" where
  "np_max xs = (case xs of [] \<Rightarrow> Inl ValueError | x # rest \<Rightarrow> Inr (foldl max x rest))"

text \<open>
  \<^verbatim>\<open>np.argmax\<close> of a one-dimensional array: a left-to-right scan that replaces the
  candidate only by a strictly larger entry, so the first occurrence of the maximum is
  returned; \<^verbatim>\<open>ValueError\<close> on an empty array.
\<close>

fun argmax_scan :: "real list \<Rightarrow> nat \<Rightarrow> nat \<Rightarrow> real \<Rightarrow> nat" where
  "argmax_scan [] i best_i best = best_i"
| "argmax_scan (x # xs) i best_i best =
     (if x > best then argmax_scan xs (Suc i) i x else argmax_scan xs (Suc i) best_i best)"

definition np_argmax :: "real list \<Rightarrow> error + nat" where
  "np_argmax xs = (case xs of [] \<Rightarrow> Inl ValueError | x # rest \<Rightarrow> Inr (argmax_scan rest 1 0 x))"

text \<open>Python's built-in \<^verbatim>\<open>max(a, b)\<close>: the second argument wins only when strictly larger.\<close>

definition py_max :: "real \<Rightarrow> real \<Rightarrow> real" where
  "py_max a b = (if b > a then b else a)"

subsection \<open>The agent\<close>

record agent =
  state_size :: nat
  action_size :: nat
  alpha :: real
  gamma :: real
  epsilon :: real
  decay_rate :: real
  epsilon_min :: real
  q_table :: "real list list"

text \<open>\<^verbatim>\<open>np.zeros((state_size, action_size))\<close>.\<close>

definition np_zeros :: "nat \<Rightarrow> nat \<Rightarrow> real list list" where
  "np_zeros rows cols = replicate rows (replicate cols 0)"

definition QLearningAgent :: "nat \<Rightarrow> nat \<Rightarrow> real \<Rightarrow> real \<Rightarrow> real \<Rightarrow> real \<Rightarrow> real \<Rightarrow> agent" where
  "QLearningAgent ssize asize a g eps decay eps_min =
     \<lparr>state_size = ssize, action_size = asize, alpha = a, gamma = g, epsilon = eps,
      decay_rate = decay, epsilon_min = eps_min, q_table = np_zeros ssize asize\<rparr>"

text \<open>
  \<^verbatim>\<open>choose_action\<close>. The two calls of the random number generator are inputs: \<open>u\<close> is the
  value of \<^verbatim>\<open>np.random.rand()\<close> (a number of the interval from 0 up to, not including, 1)
  and \<open>k\<close> is the raw integer from which \<^verbatim>\<open>np.random.randint(action_size)\<close> takes its value
  \<open>k mod action_size\<close>; \<^verbatim>\<open>randint(0)\<close> raises \<^verbatim>\<open>ValueError\<close>. Indexing the table or
  the catalogue out of range raises \<^verbatim>\<open>IndexError\<close>. The result is the pair of the catalogue
  entry and its index.
\<close>

definition choose_action :: "agent \<Rightarrow> nat \<Rightarrow> real \<Rightarrow> nat \<Rightarrow> error + (instruction \<times> nat)" where
  "choose_action a state_index u k =
     (case (if u < epsilon a
            then (if action_size a = 0 then Inl ValueError else Inr (k mod action_size a))
            else (if state_index < length (q_table a)
                  then np_argmax (q_table a ! state_index)
                  else Inl IndexError)) of
        Inl e \<Rightarrow> Inl e
      | Inr action \<Rightarrow>
          if action < length possible_actions
          then Inr (possible_actions ! action, action)
          else Inl IndexError)"

text \<open>
  \<^verbatim>\<open>update_q_table\<close>. The augmented assignment reads \<^verbatim>\<open>q_table[state_index, action]\<close>
  first, then evaluates the right-hand side (the row of the next state and its maximum),
  then stores the sum.
\<close>

definition update_q_table :: "agent \<Rightarrow> nat \<Rightarrow> nat \<Rightarrow> real \<Rightarrow> nat \<Rightarrow> error + agent" where
  "update_q_table a state_index action reward next_state_index =
     (let q = q_table a in
      if \<not> state_index < length q then Inl IndexError
      else if \<not> action < length (q ! state_index) then Inl IndexError
      else if \<not> next_state_index < length q then Inl IndexError
      else
        (case np_max (q ! next_state_index) of
           Inl e \<Rightarrow> Inl e
         | Inr m \<Rightarrow>
             let old = q ! state_index ! action;
                 new = old + alpha a * (reward + gamma a * m - old)
             in Inr (a\<lparr>q_table := q[state_index := (q ! state_index)[action := new]]\<rparr>)))"

text \<open>\<^verbatim>\<open>decay_exploration\<close>.\<close>

definition decay_exploration :: "agent \<Rightarrow> agent" where
  "decay_exploration a = a\<lparr>epsilon := py_max (epsilon_min a) (epsilon a * decay_rate a)\<rparr>"

subsection \<open>Matrices\<close>

text \<open>
  A two-dimensional numpy array is a list of rows. \<^verbatim>\<open>A @ B\<close> raises \<^verbatim>\<open>ValueError\<close>
  when the number of columns of \<open>A\<close> differs from the number of rows of \<open>B\<close>;
  \<^verbatim>\<open>np.trace\<close> sums the main diagonal.
\<close>

type_synonym matrix = "complex list list"

definition nrows :: "matrix \<Rightarrow> nat" where
  "nrows m = length m"

definition ncols :: "matrix \<Rightarrow> nat" where
  "ncols m = (case m of [] \<Rightarrow> 0 | r # _ \<Rightarrow> length r)"

definition mat_conj :: "matrix \<Rightarrow> matrix" where
  "mat_conj m = map (map cnj) m"

definition mat_column :: "matrix \<Rightarrow> nat \<Rightarrow> complex list" where
  "mat_column m j = map (\<lambda>r. r ! j) m"

definition mat_T :: "matrix \<Rightarrow> matrix" where
  "mat_T m = map (mat_column m) [0..<ncols m]"

definition dot :: "complex list \<Rightarrow> complex list \<Rightarrow> complex" where
  "dot xs ys = sum_list (map2 (*) xs ys)"

definition mat_mul :: "matrix \<Rightarrow> matrix \<Rightarrow> error + matrix" where
  "mat_mul a b =
     (if ncols a \<noteq> nrows b then Inl ValueError
      else Inr (map (\<lambda>r. map (\<lambda>j. dot r (mat_column b j)) [0..<ncols b]) a))"

definition mat_trace :: "matrix \<Rightarrow> complex" where
  "mat_trace m = sum_list (map (\<lambda>i. m ! i ! i) [0..<min (nrows m) (ncols m)])"

text \<open>The target \<^verbatim>\<open>iswap_matrix\<close>.\<close>

definition iswap_matrix :: matrix where
  "iswap_matrix =
     [[1, 0, 0, 0],
      [0, 0, \<i>, 0],
      [0, \<i>, 0, 0],
      [0, 0, 0, 1]]"

subsection \<open>The collaborators outside the file\<close>

text \<open>
  \<open>draw_text\<close> is \<^verbatim>\<open>circuit.draw(output='text').__str__()\<close>, \<open>sha256_int\<close> is the
  SHA-256 digest of the UTF-8 bytes of a string read as a hexadecimal integer, and
  \<open>get_unitary\<close> is the unitary that Aer's \<^verbatim>\<open>unitary_simulator\<close> returns for the
  transpiled circuit. All three are deterministic functions of their argument.
\<close>

record externals =
  draw_text :: "quantum_circuit \<Rightarrow> string"
  sha256_int :: "string \<Rightarrow> nat"
  get_unitary :: "quantum_circuit \<Rightarrow> matrix"

text \<open>
  \<^verbatim>\<open>QuantumCircuit.append(gate, qubits)\<close> with a list of integer qubit indices: qiskit
  raises \<^verbatim>\<open>CircuitError\<close> for an index outside the register, a repeated qubit, or a
  number of qubits other than the gate's; otherwise one instruction is added at the end.
  \<^verbatim>\<open>QuantumCircuit.size()\<close> counts the instructions.
\<close>

fun gate_num_qubits :: "gate \<Rightarrow> nat" where
  "gate_num_qubits CXGate = 2"
| "gate_num_qubits g = 1"

definition circuit_append ::
    "nat \<Rightarrow> quantum_circuit \<Rightarrow> gate \<Rightarrow> nat list \<Rightarrow> error + quantum_circuit" where
  "circuit_append n c g qubits =
     (if list_all (\<lambda>q. q < n) qubits \<and> distinct qubits \<and> length qubits = gate_num_qubits g
      then Inr (c @ [(g, qubits)])
      else Inl CircuitError)"

definition circuit_size :: "quantum_circuit \<Rightarrow> nat" where
  "circuit_size c = length c"

subsection \<open>The environment\<close>

text \<open>
  The dictionary \<^verbatim>\<open>state_to_index\<close> is an association list in insertion order; the source
  only ever adds a key that is absent, so its keys are distinct and its length is
  \<^verbatim>\<open>len(self.state_to_index)\<close>.
\<close>

record env =
  num_qubits :: nat
  circuit :: quantum_circuit
  target_unitary :: matrix
  state_to_index :: "(nat \<times> nat) list"
  index_to_state :: "nat list"

definition QuantumEnv :: env where
  "QuantumEnv =
     \<lparr>num_qubits = 2, circuit = [], target_unitary = iswap_matrix,
      state_to_index = [], index_to_state = []\<rparr>"

text \<open>\<^verbatim>\<open>_hash_circuit\<close>.\<close>

definition hash_circuit :: "externals \<Rightarrow> quantum_circuit \<Rightarrow> nat" where
  "hash_circuit X c =
     (let circuit_str = draw_text X c;
          hash_int = sha256_int X circuit_str
      in hash_int mod 100)"

text \<open>
  \<^verbatim>\<open>get_state_index\<close>. When the bucket is new, the value returned by the final
  \<^verbatim>\<open>self.state_to_index[state_hash]\<close> is the index just stored.
\<close>

definition get_state_index :: "externals \<Rightarrow> env \<Rightarrow> quantum_circuit \<Rightarrow> env \<times> nat" where
  "get_state_index X e state =
     (let state_hash = hash_circuit X state in
      case map_of (state_to_index e) state_hash of
        None \<Rightarrow>
          (let index = length (state_to_index e)
           in (e\<lparr>state_to_index := state_to_index e @ [(state_hash, index)],
                 index_to_state := index_to_state e @ [state_hash]\<rparr>, index))
      | Some index \<Rightarrow> (e, index))"

text \<open>\<^verbatim>\<open>reset\<close>.\<close>

definition reset :: "externals \<Rightarrow> env \<Rightarrow> env \<times> nat" where
  "reset X e = (let e1 = e\<lparr>circuit := []\<rparr> in get_state_index X e1 (circuit e1))"

text \<open>\<^verbatim>\<open>_reward\<close>, with the fidelity it computes on the way.\<close>

definition fidelity :: "nat \<Rightarrow> matrix \<Rightarrow> matrix \<Rightarrow> error + real" where
  "fidelity n unitary_array target_unitary_array =
     (case mat_mul (mat_T (mat_conj unitary_array)) target_unitary_array of
        Inl err \<Rightarrow> Inl err
      | Inr m \<Rightarrow> Inr (cmod (mat_trace m) / 2 ^ n))"

definition reward :: "externals \<Rightarrow> env \<Rightarrow> matrix \<Rightarrow> error + (int \<times> bool)" where
  "reward X e target =
     (let unitary = get_unitary X (circuit e) in
      case fidelity (num_qubits e) unitary target of
        Inl err \<Rightarrow> Inl err
      | Inr f \<Rightarrow>
          let r = - 5 * int (circuit_size (circuit e)) in
          if f > 0.99 then Inr (r + 100, True) else Inr (r, False))"

text \<open>\<^verbatim>\<open>step\<close>: the new environment, the state index, the reward and the done flag.\<close>

definition step ::
    "externals \<Rightarrow> env \<Rightarrow> gate \<Rightarrow> nat list \<Rightarrow> error + (env \<times> nat \<times> int \<times> bool)" where
  "step X e action qubits =
     (case circuit_append (num_qubits e) (circuit e) action qubits of
        Inl err \<Rightarrow> Inl err
      | Inr c \<Rightarrow>
          let e1 = e\<lparr>circuit := c\<rparr>;
              (e2, state_index) = get_state_index X e1 (circuit e1)
          in (case reward X e2 (target_unitary e2) of
                Inl err \<Rightarrow> Inl err
              | Inr (r, done) \<Rightarrow> Inr (e2, state_index, r, done)))"

text \<open>
  Python binds the arguments of a call before the body runs: \<^verbatim>\<open>step(self, action, qubits)\<close>
  called with any number of positional arguments other than two raises \<^verbatim>\<open>TypeError\<close>.
  The values the drivers pass are a gate, a list of qubit indices, an action index, or a
  sequence of such values.
\<close>

datatype pyval = PyGate gate | PyQubits "nat list" | PyInt nat | PySeq "pyval list"

fun call_step ::
    "externals \<Rightarrow> env \<Rightarrow> pyval list \<Rightarrow> error + (env \<times> nat \<times> int \<times> bool)" where
  "call_step X e [PyGate g, PyQubits qs] = step X e g qs"
| "call_step X e [a, q] = Inl CircuitError"
| "call_step X e args = Inl TypeError"

subsection \<open>The drivers\<close>

text \<open>What the drivers write to the console: \<^verbatim>\<open>environment.render()\<close> and the two prints.\<close>

datatype event =
    Render quantum_circuit
  | PrintGenerated
  | PrintTotal nat int

record world =
  the_agent :: agent
  the_env :: env
  console :: "event list"

datatype ctl = Continue | Break

text \<open>
  The body of the inner loop of \<^verbatim>\<open>train_agent\<close> (lines 181 to 201), for the random
  draws \<open>(u, k)\<close> of this step. It returns how the loop goes on, the world, the state
  index and the episode reward.
\<close>

definition train_body ::
    "externals \<Rightarrow> nat \<Rightarrow> real \<times> nat \<Rightarrow> world \<times> nat \<times> int \<Rightarrow>
     error + (ctl \<times> world \<times> nat \<times> int)" where
  "train_body X episode draws st =
     (case st of (w, state_index, episode_reward) \<Rightarrow>
     (case choose_action (the_agent w) state_index (fst draws) (snd draws) of
        Inl err \<Rightarrow> Inl err
      | Inr (action, action_index) \<Rightarrow>
      (case call_step X (the_env w) [PyGate (fst action), PyQubits (snd action)] of
        Inl err \<Rightarrow> Inl err
      | Inr (e', next_state_index, r, done) \<Rightarrow>
      (case update_q_table (the_agent w) state_index action_index (of_int r) next_state_index of
        Inl err \<Rightarrow> Inl err
      | Inr a' \<Rightarrow>
          let episode_reward = episode_reward + r;
              w1 = w\<lparr>the_agent := a', the_env := e'\<rparr>
          in if done then
               Inr (Break,
                    w1\<lparr>console := console w1 @
                       [PrintGenerated, Render (circuit e'),
                        PrintTotal (episode + 1) episode_reward]\<rparr>,
                    next_state_index, episode_reward)
             else if circuit_size (circuit e') > 10 then
               Inr (Break, w1, next_state_index, episode_reward - 100)
             else Inr (Continue, w1, next_state_index, episode_reward)))))"

text \<open>The inner loop \<^verbatim>\<open>for step in range(max_steps_per_episode)\<close>, \<open>n\<close> iterations left.\<close>

fun train_steps ::
    "externals \<Rightarrow> nat \<Rightarrow> (nat \<Rightarrow> real \<times> nat) \<Rightarrow> nat \<Rightarrow> nat \<Rightarrow> world \<times> nat \<times> int \<Rightarrow>
     error + (world \<times> nat \<times> int)" where
  "train_steps X episode rnd i 0 st = Inr st"
| "train_steps X episode rnd i (Suc n) st =
     (case train_body X episode (rnd i) st of
        Inl err \<Rightarrow> Inl err
      | Inr (Break, st') \<Rightarrow> Inr st'
      | Inr (Continue, st') \<Rightarrow> train_steps X episode rnd (Suc i) n st')"

text \<open>The outer loop of \<^verbatim>\<open>train_agent\<close>; \<open>rnd episode i\<close> are the draws of step \<open>i\<close>.\<close>

fun train_episodes ::
    "externals \<Rightarrow> (nat \<Rightarrow> nat \<Rightarrow> real \<times> nat) \<Rightarrow> nat \<Rightarrow> nat \<Rightarrow> nat \<Rightarrow> world \<Rightarrow> error + world" where
  "train_episodes X rnd max_steps episode 0 w = Inr w"
| "train_episodes X rnd max_steps episode (Suc n) w =
     (case reset X (the_env w) of (e1, state_index) \<Rightarrow>
     (case train_steps X episode (rnd episode) 0 max_steps (w\<lparr>the_env := e1\<rparr>, state_index, 0) of
        Inl err \<Rightarrow> Inl err
      | Inr (w2, _, episode_reward) \<Rightarrow>
          let w3 = (if (episode + 1) mod 100 = 0
                    then w2\<lparr>console := console w2 @ [PrintTotal (episode + 1) episode_reward]\<rparr>
                    else w2);
              w4 = w3\<lparr>the_agent := decay_exploration (the_agent w3)\<rparr>
          in train_episodes X rnd max_steps (Suc episode) n w4))"

definition train_agent ::
    "externals \<Rightarrow> (nat \<Rightarrow> nat \<Rightarrow> real \<times> nat) \<Rightarrow> agent \<Rightarrow> env \<Rightarrow> nat \<Rightarrow> nat \<Rightarrow> error + world" where
  "train_agent X rnd a e episodes max_steps_per_episode =
     train_episodes X rnd max_steps_per_episode 0 episodes
       \<lparr>the_agent = a, the_env = e, console = []\<rparr>"

text \<open>
  The body of the inner loop of \<^verbatim>\<open>test_agent\<close> (lines 216 to 230). The whole result of
  \<^verbatim>\<open>choose_action\<close>, the pair of the catalogue entry and the index, is bound to
  \<^verbatim>\<open>action\<close> and passed to \<^verbatim>\<open>environment.step\<close> as its only argument.
\<close>

definition test_body ::
    "externals \<Rightarrow> real \<times> nat \<Rightarrow> world \<times> nat \<Rightarrow> error + (ctl \<times> world \<times> nat)" where
  "test_body X draws st =
     (case st of (w, state_index) \<Rightarrow>
     (case choose_action (the_agent w) state_index (fst draws) (snd draws) of
        Inl err \<Rightarrow> Inl err
      | Inr (entry, action_index) \<Rightarrow>
      (case call_step X (the_env w)
              [PySeq [PySeq [PyGate (fst entry), PyQubits (snd entry)], PyInt action_index]] of
        Inl err \<Rightarrow> Inl err
      | Inr (e', next_state_index, r, done) \<Rightarrow>
          let w1 = w\<lparr>the_env := e', console := console w @ [Render (circuit e')]\<rparr>
          in if done then Inr (Break, w1, next_state_index)
             else Inr (Continue, w1, next_state_index))))"

fun test_steps ::
    "externals \<Rightarrow> (nat \<Rightarrow> real \<times> nat) \<Rightarrow> nat \<Rightarrow> nat \<Rightarrow> world \<times> nat \<Rightarrow> error + (world \<times> nat)" where
  "test_steps X rnd i 0 st = Inr st"
| "test_steps X rnd i (Suc n) st =
     (case test_body X (rnd i) st of
        Inl err \<Rightarrow> Inl err
      | Inr (Break, st') \<Rightarrow> Inr st'
      | Inr (Continue, st') \<Rightarrow> test_steps X rnd (Suc i) n st')"

text \<open>The outer loop of \<^verbatim>\<open>test_agent\<close>, which resets the environment twice.\<close>

fun test_episodes ::
    "externals \<Rightarrow> (nat \<Rightarrow> nat \<Rightarrow> real \<times> nat) \<Rightarrow> nat \<Rightarrow> nat \<Rightarrow> nat \<Rightarrow> world \<Rightarrow> error + world" where
  "test_episodes X rnd max_steps episode 0 w = Inr w"
| "test_episodes X rnd max_steps episode (Suc n) w =
     (case reset X (the_env w) of (e0, _) \<Rightarrow>
     (case reset X e0 of (e1, state_index) \<Rightarrow>
     (case test_steps X (rnd episode) 0 max_steps (w\<lparr>the_env := e1\<rparr>, state_index) of
        Inl err \<Rightarrow> Inl err
      | Inr (w2, _) \<Rightarrow> test_episodes X rnd max_steps (Suc episode) n w2)))"

definition test_agent ::
    "externals \<Rightarrow> (nat \<Rightarrow> nat \<Rightarrow> real \<times> nat) \<Rightarrow> agent \<Rightarrow> env \<Rightarrow> nat \<Rightarrow> nat \<Rightarrow> error + world" where
  "test_agent X rnd a e episodes max_steps_per_episode =
     test_episodes X rnd max_steps_per_episode 0 episodes
       \<lparr>the_agent = a, the_env = e, console = []\<rparr>"

subsection \<open>Environments that a run can reach\<close>

text \<open>
  One call of a method of the environment that touches the table: \<^verbatim>\<open>reset\<close>, a
  \<^verbatim>\<open>step\<close> that returns, or \<^verbatim>\<open>get_state_index\<close> on any circuit. A reachable
  environment is what any number of such calls makes of a new \<^verbatim>\<open>QuantumEnv()\<close>.
\<close>

inductive env_op :: "externals \<Rightarrow> env \<Rightarrow> env \<Rightarrow> bool" for X :: externals where
  by_reset: "env_op X e (fst (reset X e))"
| by_step: "step X e g qs = Inr (e', res) \<Longrightarrow> env_op X e e'"
| by_get_state_index: "env_op X e (fst (get_state_index X e c))"

definition reachable :: "externals \<Rightarrow> env \<Rightarrow> bool" where
  "reachable X e = (env_op X)\<^sup>*\<^sup>* QuantumEnv e"

text \<open>
  The shape of the table in every reachable environment: the dense indices are
  \<open>0, 1, 2, ...\<close> in the order of insertion, \<^verbatim>\<open>index_to_state\<close> lists the keys in that
  order, and the keys are distinct bucket ids below 100.
\<close>

definition table_inv :: "env \<Rightarrow> bool" where
  "table_inv e \<longleftrightarrow>
     map snd (state_to_index e) = [0..<length (state_to_index e)] \<and>
     map fst (state_to_index e) = index_to_state e \<and>
     distinct (index_to_state e) \<and>
     list_all (\<lambda>h. h < 100) (index_to_state e)"

subsection \<open>Square matrices\<close>

text \<open>
  The simulator returns, and the target is, a square array of side \<open>2 ^ num_qubits\<close>; the
  predicate says that a list of rows is a square array of side \<open>n\<close>.
\<close>

definition is_square :: "nat \<Rightarrow> matrix \<Rightarrow> bool" where
  "is_square n m \<longleftrightarrow> length m = n \<and> list_all (\<lambda>r. length r = n) m"

subsection \<open>Stand-ins for the collaborators\<close>

text \<open>
  Concrete collaborators on which the definitions can be evaluated: the drawing has one
  character per instruction, the digest is a function of the drawing's length, and the
  simulator returns the 4 by 4 identity, which is the unitary of the empty circuit.
\<close>

definition identity_matrix :: "nat \<Rightarrow> matrix" where
  "identity_matrix n = map (\<lambda>i. map (\<lambda>j. if i = j then 1 else 0) [0..<n]) [0..<n]"

definition stub_externals :: externals where
  "stub_externals =
     \<lparr>draw_text = (\<lambda>c. replicate (length c) (CHR ''-'')),
      sha256_int = (\<lambda>s. 7 * length s + 103),
      get_unitary = (\<lambda>c. identity_matrix 4)\<rparr>"

text \<open>
  The world that the inner loop of \<^verbatim>\<open>train_agent\<close> reaches after ten transitions from a new
  environment and the agent of the entry point, with the stand-in collaborators, when every
  draw explores and picks action 8, the X gate on qubit 0: ten gates in the circuit, eleven
  buckets in the table, and one updated cell in each of the rows 0 to 9.
\<close>

definition row_8 :: "real \<Rightarrow> real list" where
  "row_8 v = (replicate 14 0)[8 := v]"

definition ten_gates_world :: world where
  "ten_gates_world =
     \<lparr>the_agent = (QLearningAgent 100 14 0.05 0.95 0.9 0.99 0.01)
        \<lparr>q_table := (np_zeros 100 14)
           [0 := row_8 (- (1 / 4)), 1 := row_8 (- (1 / 2)), 2 := row_8 (- (3 / 4)),
            3 := row_8 (- 1), 4 := row_8 (- (5 / 4)), 5 := row_8 (- (3 / 2)),
            6 := row_8 (- (7 / 4)), 7 := row_8 (- 2), 8 := row_8 (- (9 / 4)),
            9 := row_8 (- (5 / 2))]\<rparr>,
      the_env = QuantumEnv
        \<lparr>circuit := replicate 10 (XGate, [0]),
         state_to_index := [(3, 0), (10, 1), (17, 2), (24, 3), (31, 4), (38, 5), (45, 6),
                            (52, 7), (59, 8), (66, 9), (73, 10)],
         index_to_state := [3, 10, 17, 24, 31, 38, 45, 52, 59, 66, 73]\<rparr>,
      console = []\<rparr>"

section \<open>Properties of the agent\<close>

subsection \<open>The reductions\<close>

lemma foldl_max_Max: "foldl max x xs = Max (set (x # xs))"
proof (induction xs arbitrary: x)
  case Nil
  show ?case by simp
next
  case (Cons y ys)
  have "foldl max x (y # ys) = Max (set (max x y # ys))"
    using Cons.IH [of "max x y"] by simp
  also have "\<dots> = Max (set (x # y # ys))"
    by (cases "ys = []") (auto simp: max.assoc max.commute max.left_commute)
  finally show ?case .
qed

lemma np_max_Max: "xs \<noteq> [] \<Longrightarrow> np_max xs = Inr (Max (set xs))"
  by (cases xs) (simp_all add: np_max_def foldl_max_Max del: set_simps Max_insert)

lemma np_max_zeros: "0 < m \<Longrightarrow> np_max (replicate m 0) = Inr 0"
  by (simp add: np_max_Max)

subsection \<open>The temporal-difference update\<close>

lemma update_q_table_general:
  assumes "s < length (q_table a)" and "act < length (q_table a ! s)"
    and "ns < length (q_table a)" and "q_table a ! ns \<noteq> []"
  shows "update_q_table a s act r ns =
           Inr (a\<lparr>q_table := (q_table a)[s := (q_table a ! s)[act :=
              q_table a ! s ! act +
              alpha a * (r + gamma a * Max (set (q_table a ! ns)) - q_table a ! s ! act)]]\<rparr>)"
  using assms by (simp add: update_q_table_def np_max_Max Let_def)

lemma update_q_table_zeros:
  assumes "q_table a = np_zeros n m" and "s < n" and "act < m" and "ns < n"
  shows "\<exists>a'. update_q_table a s act r ns = Inr a' \<and> q_table a' ! s ! act = alpha a * r"
proof -
  have m: "0 < m" using assms by simp
  have rows: "q_table a ! s = replicate m 0" "q_table a ! ns = replicate m 0"
    using assms by (simp_all add: np_zeros_def)
  have len: "length (q_table a) = n" using assms by (simp add: np_zeros_def)
  have mx: "Max (set (q_table a ! ns)) = 0" using m rows by simp
  have "update_q_table a s act r ns =
          Inr (a\<lparr>q_table := (q_table a)[s := (q_table a ! s)[act := alpha a * r]]\<rparr>)"
    using update_q_table_general [of s a act ns r] assms m rows len mx by simp
  then show ?thesis using assms len rows by simp
qed

text \<open>
  Claim C1. When the three indices are inside the table, \<^verbatim>\<open>update_q_table\<close> returns
  normally and replaces the cell \<open>Q[s, a]\<close> by
  \<open>Q[s, a] + alpha * (reward + gamma * max\<^sub>a\<^sub>' Q[s', a'] - Q[s, a])\<close>, leaving every other cell,
  the shape of the table and the other fields of the agent as they were. In particular, on
  the all-zero table of \<open>n\<close> rows and \<open>m\<close> columns the updated cell is exactly
  \<open>alpha * reward\<close>, for every state, action and reward.
\<close>

theorem update_q_table_rule:
  "(s < length (q_table a) \<and> act < length (q_table a ! s) \<and>
    ns < length (q_table a) \<and> q_table a ! ns \<noteq> [] \<longrightarrow>
      (\<exists>a'. update_q_table a s act r ns = Inr a' \<and>
            q_table a' ! s ! act =
              q_table a ! s ! act +
              alpha a * (r + gamma a * Max (set (q_table a ! ns)) - q_table a ! s ! act) \<and>
            (\<forall>i j. (i, j) \<noteq> (s, act) \<longrightarrow> q_table a' ! i ! j = q_table a ! i ! j) \<and>
            length (q_table a') = length (q_table a) \<and>
            map length (q_table a') = map length (q_table a) \<and>
            a' = a\<lparr>q_table := q_table a'\<rparr>)) \<and>
   (q_table a = np_zeros n m \<and> s < n \<and> act < m \<and> ns < n \<longrightarrow>
      (\<exists>a'. update_q_table a s act r ns = Inr a' \<and> q_table a' ! s ! act = alpha a * r))"
proof (intro conjI impI)
  assume h: "s < length (q_table a) \<and> act < length (q_table a ! s) \<and>
    ns < length (q_table a) \<and> q_table a ! ns \<noteq> []"
  let ?new = "q_table a ! s ! act +
              alpha a * (r + gamma a * Max (set (q_table a ! ns)) - q_table a ! s ! act)"
  let ?q = "(q_table a)[s := (q_table a ! s)[act := ?new]]"
  have eq: "update_q_table a s act r ns = Inr (a\<lparr>q_table := ?q\<rparr>)"
    using h by (simp add: update_q_table_general)
  have cell: "?q ! s ! act = ?new" using h by simp
  have others: "\<forall>i j. (i, j) \<noteq> (s, act) \<longrightarrow> ?q ! i ! j = q_table a ! i ! j"
  proof (intro allI impI)
    fix i j assume "(i, j) \<noteq> (s, act)"
    then show "?q ! i ! j = q_table a ! i ! j"
      using h by (cases "i = s") auto
  qed
  have lens: "map length ?q = map length (q_table a)"
    using h by (simp add: map_update list_update_same_conv)
  show "\<exists>a'. update_q_table a s act r ns = Inr a' \<and>
            q_table a' ! s ! act = ?new \<and>
            (\<forall>i j. (i, j) \<noteq> (s, act) \<longrightarrow> q_table a' ! i ! j = q_table a ! i ! j) \<and>
            length (q_table a') = length (q_table a) \<and>
            map length (q_table a') = map length (q_table a) \<and>
            a' = a\<lparr>q_table := q_table a'\<rparr>"
    using eq cell others lens by (intro exI [of _ "a\<lparr>q_table := ?q\<rparr>"]) simp
next
  assume "q_table a = np_zeros n m \<and> s < n \<and> act < m \<and> ns < n"
  then show "\<exists>a'. update_q_table a s act r ns = Inr a' \<and> q_table a' ! s ! act = alpha a * r"
    using update_q_table_zeros [of a n m s act ns r] by simp
qed

text \<open>
  The rule at the agent of the entry point, state 3, action 5, reward -5 and next state 4:
  the cell becomes \<open>0.05 * (-5) = -1/4\<close>.
\<close>

theorem update_q_table_rule_witness:
  "\<exists>a'. update_q_table (QLearningAgent 100 14 0.05 0.95 0.9 0.99 0.01) 3 5 (- 5) 4 = Inr a' \<and>
        q_table a' ! 3 ! 5 = - (1 / 4) \<and>
        q_table a' ! 3 ! 5 =
          q_table (QLearningAgent 100 14 0.05 0.95 0.9 0.99 0.01) ! 3 ! 5 + 0.05 * (- 5 + 0.95 * 0 - 0)"
proof -
  let ?a = "QLearningAgent 100 14 0.05 0.95 0.9 0.99 0.01"
  have q: "q_table ?a = np_zeros 100 14" and al: "alpha ?a = 0.05"
    by (simp_all add: QLearningAgent_def)
  have "q_table ?a = np_zeros 100 14 \<and> (3::nat) < 100 \<and> (5::nat) < 14 \<and> (4::nat) < 100"
    using q by simp
  then obtain a' where a': "update_q_table ?a 3 5 (- 5) 4 = Inr a'"
      "q_table a' ! 3 ! 5 = alpha ?a * (- 5)"
    using update_q_table_rule [of 3 ?a 5 4 "- 5" 100 14] by blast
  have "q_table ?a ! 3 ! 5 = 0" by (simp add: QLearningAgent_def np_zeros_def)
  then show ?thesis using a' al by (intro exI [of _ a']) simp
qed

subsection \<open>Greedy action selection\<close>

text \<open>
  The scan keeps the first position of the largest entry seen so far: \<open>pre\<close> is the part of
  the array already scanned, \<open>xs\<close> the rest.
\<close>

lemma argmax_scan_first_max:
  assumes "length pre = i" and "bi < i" and "best = pre ! bi"
    and "\<forall>j<i. pre ! j \<le> best" and "\<forall>j<bi. pre ! j < best"
  shows "argmax_scan xs i bi best < length (pre @ xs) \<and>
         (\<forall>j<length (pre @ xs). (pre @ xs) ! j \<le> (pre @ xs) ! argmax_scan xs i bi best) \<and>
         (\<forall>j<argmax_scan xs i bi best. (pre @ xs) ! j < (pre @ xs) ! argmax_scan xs i bi best)"
  using assms
proof (induction xs arbitrary: pre i bi best)
  case Nil
  then show ?case by simp
next
  case (Cons x xs)
  let ?pre = "pre @ [x]"
  show ?case
  proof (cases "x > best")
    case True
    have a: "length ?pre = Suc i" "i < Suc i" "x = ?pre ! i"
      using Cons.prems by (auto simp: nth_append)
    have b: "\<forall>j<Suc i. ?pre ! j \<le> x"
      using Cons.prems True by (auto simp: nth_append less_Suc_eq)
    have c: "\<forall>j<i. ?pre ! j < x"
      using Cons.prems True by (auto simp: nth_append)
    from Cons.IH [OF a b c] True show ?thesis by simp
  next
    case False
    have a: "length ?pre = Suc i" "bi < Suc i" "best = ?pre ! bi"
      using Cons.prems by (simp_all add: nth_append)
    have b: "\<forall>j<Suc i. ?pre ! j \<le> best"
      using Cons.prems False by (auto simp: nth_append less_Suc_eq)
    have c: "\<forall>j<bi. ?pre ! j < best"
      using Cons.prems by (auto simp: nth_append)
    from Cons.IH [OF a b c] False show ?thesis by simp
  qed
qed

lemma np_argmax_first_max:
  assumes "row \<noteq> []"
  shows "\<exists>i. np_argmax row = Inr i \<and> i < length row \<and>
             (\<forall>j<length row. row ! j \<le> row ! i) \<and> (\<forall>j<i. row ! j < row ! i)"
proof -
  obtain x rest where row: "row = x # rest" using assms by (cases row) auto
  have "argmax_scan rest 1 0 x < length ([x] @ rest) \<and>
         (\<forall>j<length ([x] @ rest). ([x] @ rest) ! j \<le> ([x] @ rest) ! argmax_scan rest 1 0 x) \<and>
         (\<forall>j<argmax_scan rest 1 0 x. ([x] @ rest) ! j < ([x] @ rest) ! argmax_scan rest 1 0 x)"
    by (rule argmax_scan_first_max) simp_all
  then show ?thesis by (simp add: row np_argmax_def)
qed

lemma nth_Max_of_upper_bound:
  assumes "i < length row" and "\<forall>j<length row. row ! j \<le> (row ! i :: real)"
  shows "row ! i = Max (set row)"
proof (rule antisym)
  show "row ! i \<le> Max (set row)" using assms by simp
  show "Max (set row) \<le> row ! i"
    using assms by (subst Max_le_iff) (auto simp: in_set_conv_nth)
qed

text \<open>
  Claim C5. With \<open>epsilon = 0\<close> the test \<^verbatim>\<open>np.random.rand() < epsilon\<close> fails for every
  draw \<open>u \<ge> 0\<close>, so for a state index inside the table whose row is not empty and not longer
  than the catalogue, \<^verbatim>\<open>choose_action\<close> returns an index \<open>i\<close> of the row that carries the
  maximum of the row, every earlier entry being strictly smaller (the lowest such index),
  together with the catalogue entry \<open>possible_actions[i]\<close>.
\<close>

theorem choose_action_greedy:
  assumes "epsilon a = 0" and "0 \<le> u"
    and "s < length (q_table a)" and "q_table a ! s \<noteq> []"
    and "length (q_table a ! s) \<le> length possible_actions"
  shows "\<exists>i. choose_action a s u k = Inr (possible_actions ! i, i) \<and>
             i < length (q_table a ! s) \<and>
             q_table a ! s ! i = Max (set (q_table a ! s)) \<and>
             (\<forall>j<length (q_table a ! s). q_table a ! s ! j \<le> q_table a ! s ! i) \<and>
             (\<forall>j<i. q_table a ! s ! j < q_table a ! s ! i)"
proof -
  obtain i where i: "np_argmax (q_table a ! s) = Inr i" "i < length (q_table a ! s)"
      "\<forall>j<length (q_table a ! s). q_table a ! s ! j \<le> q_table a ! s ! i"
      "\<forall>j<i. q_table a ! s ! j < q_table a ! s ! i"
    using np_argmax_first_max [OF assms(4)] by blast
  have "choose_action a s u k = Inr (possible_actions ! i, i)"
    using assms i by (simp add: choose_action_def)
  moreover have "q_table a ! s ! i = Max (set (q_table a ! s))"
    using i by (intro nth_Max_of_upper_bound) simp_all
  ultimately show ?thesis using i by blast
qed

text \<open>
  The greedy choice on a table whose row 1 is \<open>[0, 2, 2, 1]\<close>: the maximum 2 stands at the
  indices 1 and 2, and the lower one is returned with the catalogue entry \<open>(HGate, [1])\<close>.
\<close>

theorem choose_action_greedy_witness:
  "choose_action ((QLearningAgent 2 4 0.05 0.95 0 0.99 0.01)\<lparr>q_table := [[0, 0, 0, 0], [0, 2, 2, 1]]\<rparr>)
       1 0.5 7 = Inr ((HGate, [1]), 1)"
proof -
  let ?a = "(QLearningAgent 2 4 0.05 0.95 0 0.99 0.01)\<lparr>q_table := [[0, 0, 0, 0], [0, 2, 2, 1]]\<rparr>"
  have h: "epsilon ?a = 0" "(0::real) \<le> 0.5" "1 < length (q_table ?a)" "q_table ?a ! 1 \<noteq> []"
      "length (q_table ?a ! 1) \<le> length possible_actions"
    by (simp_all add: QLearningAgent_def possible_actions_def)
  obtain i where i: "choose_action ?a 1 0.5 7 = Inr (possible_actions ! i, i)"
      "i < length (q_table ?a ! 1)"
      "\<forall>j<length (q_table ?a ! 1). q_table ?a ! 1 ! j \<le> q_table ?a ! 1 ! i"
      "\<forall>j<i. q_table ?a ! 1 ! j < q_table ?a ! 1 ! i"
    using choose_action_greedy [OF h, of 7] by blast
  have row: "q_table ?a ! 1 = [0, 2, 2, 1]" by (simp add: QLearningAgent_def)
  have "i < 4" using i(2) row by simp
  then consider "i = 0" | "i = 1" | "i = 2" | "i = 3" by linarith
  then have "i = 1"
  proof cases
    case 1
    then show ?thesis using i(3) row by (auto dest: spec [of _ 1])
  next
    case 2
    then show ?thesis .
  next
    case 3
    then show ?thesis using i(4) row by (auto dest: spec [of _ 1])
  next
    case 4
    then show ?thesis using i(3) row by (auto dest: spec [of _ 1])
  qed
  then show ?thesis using i(1) by (simp add: possible_actions_def)
qed

subsection \<open>Decay of the exploration rate\<close>

lemma py_max_max: "py_max a b = max a b"
  by (simp add: py_max_def max_def)

lemma epsilon_decay_exploration:
  "epsilon (decay_exploration a) = max (epsilon_min a) (epsilon a * decay_rate a)"
  by (simp add: decay_exploration_def py_max_max)

lemma decay_exploration_fields:
  "epsilon_min (decay_exploration a) = epsilon_min a"
  "decay_rate (decay_exploration a) = decay_rate a"
  "q_table (decay_exploration a) = q_table a"
  "alpha (decay_exploration a) = alpha a"
  "gamma (decay_exploration a) = gamma a"
  by (simp_all add: decay_exploration_def)

lemma decay_exploration_pow_fields:
  "epsilon_min ((decay_exploration ^^ n) a) = epsilon_min a \<and>
   decay_rate ((decay_exploration ^^ n) a) = decay_rate a"
  by (induction n) (simp_all add: decay_exploration_fields)

lemma decay_exploration_step:
  assumes "0 \<le> epsilon a" and "epsilon_min a \<le> epsilon a"
    and "0 < decay_rate a" and "decay_rate a \<le> 1"
  shows "epsilon (decay_exploration a) \<le> epsilon a \<and> 0 \<le> epsilon (decay_exploration a) \<and>
         epsilon_min a \<le> epsilon (decay_exploration a)"
proof -
  have "epsilon a * decay_rate a \<le> epsilon a * 1"
    using assms by (intro mult_left_mono) simp_all
  moreover have "0 \<le> epsilon a * decay_rate a" using assms by simp
  ultimately show ?thesis using assms by (simp add: epsilon_decay_exploration le_max_iff_disj)
qed

lemma decay_exploration_pow:
  assumes "0 \<le> epsilon a" and "epsilon_min a \<le> epsilon a"
    and "0 < decay_rate a" and "decay_rate a \<le> 1"
  shows "0 \<le> epsilon ((decay_exploration ^^ n) a) \<and>
         epsilon_min a \<le> epsilon ((decay_exploration ^^ n) a) \<and>
         epsilon ((decay_exploration ^^ Suc n) a) \<le> epsilon ((decay_exploration ^^ n) a)"
proof (induction n)
  case 0
  then show ?case using assms decay_exploration_step [of a] by simp
next
  case (Suc n)
  let ?b = "(decay_exploration ^^ n) a"
  have f: "epsilon_min ?b = epsilon_min a" "decay_rate ?b = decay_rate a"
    using decay_exploration_pow_fields [of n a] by simp_all
  have s1: "epsilon (decay_exploration ?b) \<le> epsilon ?b \<and> 0 \<le> epsilon (decay_exploration ?b) \<and>
         epsilon_min ?b \<le> epsilon (decay_exploration ?b)"
    using Suc assms f by (intro decay_exploration_step) simp_all
  let ?c = "decay_exploration ?b"
  have g: "epsilon_min ?c = epsilon_min a" "decay_rate ?c = decay_rate a"
    using f by (simp_all add: decay_exploration_fields)
  have s2: "epsilon (decay_exploration ?c) \<le> epsilon ?c"
    using s1 assms f g decay_exploration_step [of ?c] by simp
  show ?case using s1 s2 f by simp
qed

text \<open>
  Claim C6, as stated, fails for a negative exploration rate: with \<open>epsilon = -1\<close>,
  \<open>epsilon_min = -2\<close> and \<open>decay_rate = 1/2\<close> the hypotheses \<open>epsilon \<ge> epsilon_min\<close> and
  \<open>0 < decay_rate \<le> 1\<close> hold, and one call raises epsilon to \<open>max(-2, -1/2) = -1/2\<close>.
\<close>

theorem decay_exploration_negative_epsilon_grows:
  "epsilon_min (QLearningAgent 100 14 0.05 0.95 (- 1) (1 / 2) (- 2))
     \<le> epsilon (QLearningAgent 100 14 0.05 0.95 (- 1) (1 / 2) (- 2)) \<and>
   0 < decay_rate (QLearningAgent 100 14 0.05 0.95 (- 1) (1 / 2) (- 2)) \<and>
   decay_rate (QLearningAgent 100 14 0.05 0.95 (- 1) (1 / 2) (- 2)) \<le> 1 \<and>
   epsilon (decay_exploration (QLearningAgent 100 14 0.05 0.95 (- 1) (1 / 2) (- 2))) = - (1 / 2) \<and>
   epsilon (QLearningAgent 100 14 0.05 0.95 (- 1) (1 / 2) (- 2))
     < epsilon (decay_exploration (QLearningAgent 100 14 0.05 0.95 (- 1) (1 / 2) (- 2)))"
  by (simp add: QLearningAgent_def decay_exploration_def py_max_def)

text \<open>
  Claim C6, amended. For every agent, \<^verbatim>\<open>decay_exploration\<close> sets epsilon to
  \<open>max(epsilon_min, epsilon * decay_rate)\<close> and changes no other field, so the new epsilon
  is never below \<open>epsilon_min\<close>. When moreover \<open>epsilon \<ge> 0\<close>, \<open>epsilon \<ge> epsilon_min\<close> and
  \<open>0 < decay_rate \<le> 1\<close>, then after any number \<open>n\<close> of calls epsilon is still at least
  \<open>epsilon_min\<close>, and the next call does not increase it.
\<close>

theorem decay_exploration_rule:
  "epsilon (decay_exploration a) = max (epsilon_min a) (epsilon a * decay_rate a) \<and>
   decay_exploration a = a\<lparr>epsilon := epsilon (decay_exploration a)\<rparr> \<and>
   epsilon_min a \<le> epsilon (decay_exploration a) \<and>
   (0 \<le> epsilon a \<and> epsilon_min a \<le> epsilon a \<and> 0 < decay_rate a \<and> decay_rate a \<le> 1 \<longrightarrow>
      (\<forall>n. epsilon_min a \<le> epsilon ((decay_exploration ^^ n) a) \<and>
           epsilon ((decay_exploration ^^ Suc n) a) \<le> epsilon ((decay_exploration ^^ n) a)))"
proof (intro conjI impI allI)
  show "epsilon (decay_exploration a) = max (epsilon_min a) (epsilon a * decay_rate a)"
    by (rule epsilon_decay_exploration)
  show "decay_exploration a = a\<lparr>epsilon := epsilon (decay_exploration a)\<rparr>"
    by (simp add: decay_exploration_def)
  show "epsilon_min a \<le> epsilon (decay_exploration a)"
    by (simp add: epsilon_decay_exploration)
next
  fix n
  assume h: "0 \<le> epsilon a \<and> epsilon_min a \<le> epsilon a \<and> 0 < decay_rate a \<and> decay_rate a \<le> 1"
  then show "epsilon_min a \<le> epsilon ((decay_exploration ^^ n) a)"
    using decay_exploration_pow [of a n] by simp
  from h show "epsilon ((decay_exploration ^^ Suc n) a) \<le> epsilon ((decay_exploration ^^ n) a)"
    using decay_exploration_pow [of a n] by simp
qed

text \<open>
  The rule at the agent of the entry point (\<open>epsilon = 0.9\<close>, \<open>decay_rate = 0.99\<close>,
  \<open>epsilon_min = 0.01\<close>): the first call gives \<open>0.891\<close>, and the second call does not
  increase it.
\<close>

theorem decay_exploration_rule_witness:
  "epsilon (decay_exploration (QLearningAgent 100 14 0.05 0.95 0.9 0.99 0.01)) = 0.891 \<and>
   0.01 \<le> epsilon ((decay_exploration ^^ 1) (QLearningAgent 100 14 0.05 0.95 0.9 0.99 0.01)) \<and>
   epsilon ((decay_exploration ^^ Suc 1) (QLearningAgent 100 14 0.05 0.95 0.9 0.99 0.01))
     \<le> epsilon ((decay_exploration ^^ 1) (QLearningAgent 100 14 0.05 0.95 0.9 0.99 0.01))"
proof -
  let ?a = "QLearningAgent 100 14 0.05 0.95 0.9 0.99 0.01"
  have f: "epsilon ?a = 0.9" "epsilon_min ?a = 0.01" "decay_rate ?a = 0.99"
    by (simp_all add: QLearningAgent_def)
  have h: "0 \<le> epsilon ?a \<and> epsilon_min ?a \<le> epsilon ?a \<and> 0 < decay_rate ?a \<and> decay_rate ?a \<le> 1"
    by (simp add: QLearningAgent_def)
  have r: "epsilon (decay_exploration ?a) = max (epsilon_min ?a) (epsilon ?a * decay_rate ?a)"
      "\<forall>n. epsilon_min ?a \<le> epsilon ((decay_exploration ^^ n) ?a) \<and>
           epsilon ((decay_exploration ^^ Suc n) ?a) \<le> epsilon ((decay_exploration ^^ n) ?a)"
    using decay_exploration_rule [of ?a] h by blast+
  have "epsilon (decay_exploration ?a) = 0.891"
    unfolding r(1) f by simp
  moreover have "0.01 \<le> epsilon ((decay_exploration ^^ 1) ?a)"
    using r(2) [rule_format, of 1] f by simp
  moreover have "epsilon ((decay_exploration ^^ Suc 1) ?a) \<le> epsilon ((decay_exploration ^^ 1) ?a)"
    using r(2) [rule_format, of 1] by simp
  ultimately show ?thesis by blast
qed

section \<open>Properties of the environment\<close>

subsection \<open>The state index table\<close>

lemma hash_circuit_lt: "hash_circuit X c < 100"
  by (simp add: hash_circuit_def Let_def)

lemma hash_circuit_same_drawing:
  "draw_text X c = draw_text X c' \<Longrightarrow> hash_circuit X c = hash_circuit X c'"
  by (simp add: hash_circuit_def)

lemma get_state_index_new:
  assumes "map_of (state_to_index e) (hash_circuit X c) = None"
  shows "get_state_index X e c =
           (e\<lparr>state_to_index := state_to_index e @ [(hash_circuit X c, length (state_to_index e))],
              index_to_state := index_to_state e @ [hash_circuit X c]\<rparr>,
            length (state_to_index e))"
  using assms by (simp add: get_state_index_def Let_def)

lemma get_state_index_known:
  assumes "map_of (state_to_index e) (hash_circuit X c) = Some i"
  shows "get_state_index X e c = (e, i)"
  using assms by (simp add: get_state_index_def Let_def)

lemma get_state_index_lookup:
  "map_of (state_to_index (fst (get_state_index X e c))) (hash_circuit X c) =
     Some (snd (get_state_index X e c))"
proof (cases "map_of (state_to_index e) (hash_circuit X c)")
  case None
  then show ?thesis by (simp add: get_state_index_new map_add_def)
next
  case (Some i)
  then show ?thesis by (simp add: get_state_index_known)
qed

lemma get_state_index_frame:
  "circuit (fst (get_state_index X e c)) = circuit e"
  "num_qubits (fst (get_state_index X e c)) = num_qubits e"
  "target_unitary (fst (get_state_index X e c)) = target_unitary e"
  by (simp_all add: get_state_index_def Let_def split: option.splits)

lemma get_state_index_extends:
  "\<exists>ys zs. state_to_index (fst (get_state_index X e c)) = state_to_index e @ ys \<and>
           index_to_state (fst (get_state_index X e c)) = index_to_state e @ zs"
  by (simp add: get_state_index_def Let_def split: option.splits)

lemma get_state_index_table_only:
  "get_state_index X (e\<lparr>circuit := c'\<rparr>) c =
     ((fst (get_state_index X e c))\<lparr>circuit := c'\<rparr>, snd (get_state_index X e c))"
  by (simp add: get_state_index_def Let_def split: option.splits)

lemma map_of_fst_notin: "map_of xs k = None \<Longrightarrow> k \<notin> set (map fst xs)"
  by (simp add: map_of_eq_None_iff)

lemma get_state_index_inv:
  assumes "table_inv e"
  shows "table_inv (fst (get_state_index X e c))"
proof (cases "map_of (state_to_index e) (hash_circuit X c)")
  case None
  have "hash_circuit X c \<notin> set (index_to_state e)"
    using map_of_fst_notin [OF None] assms unfolding table_inv_def by metis
  then show ?thesis
    using assms None by (simp add: get_state_index_new table_inv_def hash_circuit_lt)
next
  case (Some i)
  then show ?thesis using assms by (simp add: get_state_index_known)
qed

lemma distinct_below_length:
  assumes "distinct xs" and "list_all (\<lambda>h. h < n) xs"
  shows "length xs \<le> (n::nat)"
proof -
  have "set xs \<subseteq> {..<n}" using assms(2) by (auto simp: list_all_iff)
  then have "card (set xs) \<le> card {..<n}" by (intro card_mono) simp_all
  then show ?thesis using assms(1) by (simp add: distinct_card)
qed

lemma table_inv_length:
  assumes "table_inv e"
  shows "length (state_to_index e) \<le> 100" and "length (index_to_state e) \<le> 100"
proof -
  show l: "length (index_to_state e) \<le> 100"
    using assms by (intro distinct_below_length) (simp_all add: table_inv_def)
  have "length (state_to_index e) = length (index_to_state e)"
    using assms by (metis length_map table_inv_def)
  then show "length (state_to_index e) \<le> 100" using l by simp
qed

lemma table_inv_lookup_lt:
  assumes "table_inv e" and "map_of (state_to_index e) h = Some i"
  shows "i < length (state_to_index e)"
proof -
  have "(h, i) \<in> set (state_to_index e)" using assms(2) by (rule map_of_SomeD)
  then have "i \<in> set (map snd (state_to_index e))" by force
  then have "i \<in> set [0..<length (state_to_index e)]"
    using assms(1) unfolding table_inv_def by metis
  then show ?thesis by simp
qed

lemma get_state_index_lt:
  assumes "table_inv e"
  shows "snd (get_state_index X e c) < length (state_to_index (fst (get_state_index X e c)))"
  using table_inv_lookup_lt [OF get_state_index_inv [OF assms] get_state_index_lookup] .

lemma get_state_index_lt_100:
  assumes "table_inv e"
  shows "snd (get_state_index X e c) < 100"
  using get_state_index_lt [OF assms, of X c]
    table_inv_length(1) [OF get_state_index_inv [OF assms, of X c]] by simp

lemma get_state_index_again:
  assumes "hash_circuit X c' = hash_circuit X c"
  shows "get_state_index X (fst (get_state_index X e c)) c' =
           (fst (get_state_index X e c), snd (get_state_index X e c))"
  using get_state_index_lookup [of X e c] assms by (simp add: get_state_index_known)

subsection \<open>Reset and step\<close>

lemma reset_eq:
  "reset X e = ((fst (get_state_index X e []))\<lparr>circuit := []\<rparr>, snd (get_state_index X e []))"
  by (simp add: reset_def Let_def get_state_index_table_only)

lemma table_inv_circuit [simp]: "table_inv (e\<lparr>circuit := c\<rparr>) = table_inv e"
  by (simp add: table_inv_def)

lemma reset_inv: "table_inv e \<Longrightarrow> table_inv (fst (reset X e))"
  by (simp add: reset_eq get_state_index_inv)

lemma reset_circuit: "circuit (fst (reset X e)) = []"
  by (simp add: reset_eq)

lemma reset_frame:
  "num_qubits (fst (reset X e)) = num_qubits e"
  "target_unitary (fst (reset X e)) = target_unitary e"
  by (simp_all add: reset_eq get_state_index_frame)

lemma reset_extends:
  "\<exists>ys zs. state_to_index (fst (reset X e)) = state_to_index e @ ys \<and>
           index_to_state (fst (reset X e)) = index_to_state e @ zs"
  using get_state_index_extends [of X e "[]"] by (simp add: reset_eq)

lemma step_Inr:
  assumes "step X e g qs = Inr (e', i, r, d)"
  shows "circuit_append (num_qubits e) (circuit e) g qs = Inr (circuit e @ [(g, qs)])"
    and "e' = (fst (get_state_index X e (circuit e @ [(g, qs)])))\<lparr>circuit := circuit e @ [(g, qs)]\<rparr>"
    and "i = snd (get_state_index X e (circuit e @ [(g, qs)]))"
    and "reward X e' (target_unitary e) = Inr (r, d)"
proof -
  obtain c where c: "circuit_append (num_qubits e) (circuit e) g qs = Inr c"
    using assms by (cases "circuit_append (num_qubits e) (circuit e) g qs") (simp_all add: step_def)
  then have cc: "c = circuit e @ [(g, qs)]"
    by (simp add: circuit_append_def split: if_splits)
  show "circuit_append (num_qubits e) (circuit e) g qs = Inr (circuit e @ [(g, qs)])"
    using c cc by simp
  let ?e2 = "(fst (get_state_index X e c))\<lparr>circuit := c\<rparr>"
  have s: "(case reward X ?e2 (target_unitary e) of Inl err \<Rightarrow> Inl err
            | Inr (r, done) \<Rightarrow> Inr (?e2, snd (get_state_index X e c), r, done)) = Inr (e', i, r, d)"
    using assms c
    by (simp add: step_def Let_def get_state_index_table_only get_state_index_frame)
  then obtain r' d' where rd: "reward X ?e2 (target_unitary e) = Inr (r', d')"
    by (cases "reward X ?e2 (target_unitary e)") auto
  with s have "e' = ?e2" "i = snd (get_state_index X e c)" "r' = r" "d' = d" by simp_all
  then show "e' = (fst (get_state_index X e (circuit e @ [(g, qs)])))\<lparr>circuit := circuit e @ [(g, qs)]\<rparr>"
    and "i = snd (get_state_index X e (circuit e @ [(g, qs)]))"
    and "reward X e' (target_unitary e) = Inr (r, d)"
    using rd cc by simp_all
qed

lemma step_inv:
  assumes "step X e g qs = Inr (e', res)" and "table_inv e"
  shows "table_inv e'"
proof -
  obtain i r d where "res = (i, r, d)" by (cases res) auto
  then show ?thesis using step_Inr(2) [of X e g qs e' i r d] assms
    by (simp add: get_state_index_inv)
qed

lemma step_extends:
  assumes "step X e g qs = Inr (e', res)"
  shows "\<exists>ys zs. state_to_index e' = state_to_index e @ ys \<and>
                 index_to_state e' = index_to_state e @ zs"
proof -
  obtain i r d where "res = (i, r, d)" by (cases res) auto
  then show ?thesis
    using step_Inr(2) [of X e g qs e' i r d] assms
      get_state_index_extends [of X e "circuit e @ [(g, qs)]"] by simp
qed

subsection \<open>Reachable environments\<close>

lemma env_op_inv: "env_op X e e' \<Longrightarrow> table_inv e \<Longrightarrow> table_inv e'"
  by (induction rule: env_op.induct) (simp_all add: reset_inv step_inv get_state_index_inv)

lemma env_op_extends:
  "env_op X e e' \<Longrightarrow>
     \<exists>ys zs. state_to_index e' = state_to_index e @ ys \<and> index_to_state e' = index_to_state e @ zs"
proof (induction rule: env_op.induct)
  case (by_reset e)
  show ?case by (rule reset_extends)
next
  case (by_step e g qs e' res)
  then show ?case by (rule step_extends)
next
  case (by_get_state_index e c)
  show ?case by (rule get_state_index_extends)
qed

lemma env_ops_extends:
  "(env_op X)\<^sup>*\<^sup>* e e' \<Longrightarrow>
     \<exists>ys zs. state_to_index e' = state_to_index e @ ys \<and> index_to_state e' = index_to_state e @ zs"
proof (induction rule: rtranclp_induct)
  case base
  then show ?case by simp
next
  case (step y z)
  then show ?case using env_op_extends [of X y z] by auto
qed

lemma table_inv_QuantumEnv: "table_inv QuantumEnv"
  by (simp add: table_inv_def QuantumEnv_def)

lemma reachable_inv: "reachable X e \<Longrightarrow> table_inv e"
  unfolding reachable_def
  by (induction rule: rtranclp_induct) (simp_all add: table_inv_QuantumEnv env_op_inv)

lemma reachable_QuantumEnv: "reachable X QuantumEnv"
  by (simp add: reachable_def)

lemma reachable_op: "reachable X e \<Longrightarrow> env_op X e e' \<Longrightarrow> reachable X e'"
  by (simp add: reachable_def)

subsection \<open>Claims about reset and the state index table\<close>

lemma map_of_extends:
  "map_of xs k = Some v \<Longrightarrow> map_of (xs @ ys) k = Some v"
  by (simp add: map_add_def)

lemma reset_snd: "snd (reset X e) = snd (get_state_index X e [])"
  by (simp add: reset_eq)

lemma reset_lookup:
  "map_of (state_to_index (fst (reset X e))) (hash_circuit X []) = Some (snd (reset X e))"
  using get_state_index_lookup [of X e "[]"] by (simp add: reset_eq)

lemma reset_known:
  assumes "map_of (state_to_index e) (hash_circuit X []) = Some i"
  shows "snd (reset X e) = i"
  using assms by (simp add: reset_snd get_state_index_known)

text \<open>
  Claim C7. From any environment, two calls of \<^verbatim>\<open>reset()\<close> in a row return the same state
  index: the first call leaves the bucket of the empty circuit in the table, bound to the
  index it returned, and the second call finds it. On a new \<^verbatim>\<open>QuantumEnv()\<close> the first
  \<^verbatim>\<open>reset()\<close> returns 0, and so does every later \<^verbatim>\<open>reset()\<close>, whatever calls came in
  between.
\<close>

theorem reset_twice_same_index:
  "snd (reset X (fst (reset X e))) = snd (reset X e) \<and>
   circuit (fst (reset X e)) = [] \<and>
   map_of (state_to_index (fst (reset X e))) (hash_circuit X []) = Some (snd (reset X e)) \<and>
   snd (reset X QuantumEnv) = 0 \<and>
   ((env_op X)\<^sup>*\<^sup>* (fst (reset X QuantumEnv)) e \<longrightarrow> snd (reset X e) = 0)"
proof (intro conjI impI)
  show "snd (reset X (fst (reset X e))) = snd (reset X e)"
    using reset_lookup [of X e] by (rule reset_known)
  show "circuit (fst (reset X e)) = []" by (rule reset_circuit)
  show "map_of (state_to_index (fst (reset X e))) (hash_circuit X []) = Some (snd (reset X e))"
    by (rule reset_lookup)
  show z: "snd (reset X QuantumEnv) = 0"
    by (simp add: reset_def get_state_index_def QuantumEnv_def Let_def)
  assume "(env_op X)\<^sup>*\<^sup>* (fst (reset X QuantumEnv)) e"
  then obtain ys where "state_to_index e = state_to_index (fst (reset X QuantumEnv)) @ ys"
    using env_ops_extends by blast
  then have "map_of (state_to_index e) (hash_circuit X []) = Some 0"
    using reset_lookup [of X QuantumEnv] z by (simp add: map_of_extends)
  then show "snd (reset X e) = 0" by (rule reset_known)
qed

text \<open>
  With the stand-in collaborators: after the first \<^verbatim>\<open>reset()\<close> of a new environment and a
  look-up of a one-gate circuit (which takes index 1), \<^verbatim>\<open>reset()\<close> returns 0 again.
\<close>

theorem reset_twice_same_index_witness:
  "snd (get_state_index stub_externals (fst (reset stub_externals QuantumEnv)) [(HGate, [0])]) = 1 \<and>
   snd (reset stub_externals
          (fst (get_state_index stub_externals (fst (reset stub_externals QuantumEnv)) [(HGate, [0])]))) = 0"
proof -
  let ?e1 = "fst (reset stub_externals QuantumEnv)"
  let ?e2 = "fst (get_state_index stub_externals ?e1 [(HGate, [0])])"
  have "env_op stub_externals ?e1 ?e2" by (rule env_op.by_get_state_index)
  then have "(env_op stub_externals)\<^sup>*\<^sup>* ?e1 ?e2" by (rule r_into_rtranclp)
  then have "snd (reset stub_externals ?e2) = 0"
    using reset_twice_same_index [of stub_externals ?e2] by blast
  moreover have "snd (get_state_index stub_externals ?e1 [(HGate, [0])]) = 1"
    by (simp add: reset_def get_state_index_def QuantumEnv_def Let_def hash_circuit_def
        stub_externals_def)
  ultimately show ?thesis by simp
qed

text \<open>
  Claim C8, as stated, fails in its last part: the dense indices cannot exceed 100. No
  environment reachable from a new one, with any collaborators, has more than 100 entries
  on either side of the table or returns a state index of 100 or more.
\<close>

theorem dense_index_never_exceeds_100:
  "\<not> (\<exists>X e c. reachable X e \<and>
        (100 < length (state_to_index e) \<or> 100 < length (index_to_state e) \<or>
         100 \<le> snd (get_state_index X e c)))"
proof
  assume "\<exists>X e c. reachable X e \<and>
        (100 < length (state_to_index e) \<or> 100 < length (index_to_state e) \<or>
         100 \<le> snd (get_state_index X e c))"
  then obtain X e c where r: "reachable X e"
    and b: "100 < length (state_to_index e) \<or> 100 < length (index_to_state e) \<or>
            100 \<le> snd (get_state_index X e c)"
    by blast
  have inv: "table_inv e" using r by (rule reachable_inv)
  show False
    using b table_inv_length [OF inv] get_state_index_lt_100 [OF inv, of X c] by linarith
qed

text \<open>
  Claim C8, amended. In every environment reachable from a new one: the dense indices of
  the table are \<open>0, 1, 2, ...\<close> in the order in which the buckets were first seen, and
  \<^verbatim>\<open>index_to_state\<close> lists these distinct buckets in that order; a bucket not yet in the
  table is appended with the next dense index, which is returned, and a bucket already in
  the table returns its index and changes nothing; any further calls only append to the
  two sides of the table; two circuits with the same drawing have the same bucket id and,
  looked up one after the other, the same index; and neither side of the table ever has
  more than 100 entries.
\<close>

theorem state_index_table_rule:
  assumes "reachable X e"
  shows "map snd (state_to_index e) = [0..<length (state_to_index e)] \<and>
         map fst (state_to_index e) = index_to_state e \<and>
         distinct (index_to_state e) \<and>
         (\<forall>c. map_of (state_to_index e) (hash_circuit X c) = None \<longrightarrow>
              get_state_index X e c =
                (e\<lparr>state_to_index :=
                     state_to_index e @ [(hash_circuit X c, length (state_to_index e))],
                   index_to_state := index_to_state e @ [hash_circuit X c]\<rparr>,
                 length (state_to_index e))) \<and>
         (\<forall>c i. map_of (state_to_index e) (hash_circuit X c) = Some i \<longrightarrow>
              get_state_index X e c = (e, i)) \<and>
         (\<forall>e'. (env_op X)\<^sup>*\<^sup>* e e' \<longrightarrow>
              (\<exists>ys zs. state_to_index e' = state_to_index e @ ys \<and>
                       index_to_state e' = index_to_state e @ zs)) \<and>
         (\<forall>c c'. draw_text X c = draw_text X c' \<longrightarrow>
              hash_circuit X c = hash_circuit X c' \<and>
              get_state_index X (fst (get_state_index X e c)) c' =
                (fst (get_state_index X e c), snd (get_state_index X e c))) \<and>
         length (state_to_index e) \<le> 100 \<and> length (index_to_state e) \<le> 100"
proof -
  have inv: "table_inv e" using assms by (rule reachable_inv)
  have a: "map snd (state_to_index e) = [0..<length (state_to_index e)]"
      "map fst (state_to_index e) = index_to_state e" "distinct (index_to_state e)"
    using inv by (simp_all add: table_inv_def)
  have b: "\<forall>c. map_of (state_to_index e) (hash_circuit X c) = None \<longrightarrow>
              get_state_index X e c =
                (e\<lparr>state_to_index :=
                     state_to_index e @ [(hash_circuit X c, length (state_to_index e))],
                   index_to_state := index_to_state e @ [hash_circuit X c]\<rparr>,
                 length (state_to_index e))"
    using get_state_index_new [of e X] by blast
  have c: "\<forall>c i. map_of (state_to_index e) (hash_circuit X c) = Some i \<longrightarrow>
              get_state_index X e c = (e, i)"
    using get_state_index_known [of e X] by blast
  have d: "\<forall>e'. (env_op X)\<^sup>*\<^sup>* e e' \<longrightarrow>
              (\<exists>ys zs. state_to_index e' = state_to_index e @ ys \<and>
                       index_to_state e' = index_to_state e @ zs)"
  proof (intro allI impI)
    fix e' assume "(env_op X)\<^sup>*\<^sup>* e e'"
    then show "\<exists>ys zs. state_to_index e' = state_to_index e @ ys \<and>
                       index_to_state e' = index_to_state e @ zs"
      by (rule env_ops_extends)
  qed
  have e: "\<forall>c c'. draw_text X c = draw_text X c' \<longrightarrow>
              hash_circuit X c = hash_circuit X c' \<and>
              get_state_index X (fst (get_state_index X e c)) c' =
                (fst (get_state_index X e c), snd (get_state_index X e c))"
  proof (intro allI impI)
    fix c c' assume dr: "draw_text X c = draw_text X c'"
    have h: "hash_circuit X c' = hash_circuit X c"
      by (rule hash_circuit_same_drawing [OF dr, symmetric])
    show "hash_circuit X c = hash_circuit X c' \<and>
              get_state_index X (fst (get_state_index X e c)) c' =
                (fst (get_state_index X e c), snd (get_state_index X e c))"
      using h [symmetric] get_state_index_again [OF h, of e] by (intro conjI)
  qed
  from a b c d e table_inv_length [OF inv] show ?thesis
    by (intro conjI)
qed

text \<open>
  The rule at a new environment with the stand-in collaborators: the empty circuit is not
  yet in the table and gets index 0, a one-gate circuit then gets index 1, and another
  one-gate circuit with the same drawing gets index 1 again.
\<close>

theorem state_index_table_rule_witness:
  "reachable stub_externals QuantumEnv \<and>
   map_of (state_to_index QuantumEnv) (hash_circuit stub_externals []) = None \<and>
   get_state_index stub_externals QuantumEnv [] =
     (QuantumEnv\<lparr>state_to_index := [(3, 0)], index_to_state := [3]\<rparr>, 0) \<and>
   draw_text stub_externals [(HGate, [0])] = draw_text stub_externals [(XGate, [1])] \<and>
   snd (get_state_index stub_externals
          (fst (get_state_index stub_externals QuantumEnv [(HGate, [0])])) [(XGate, [1])]) =
     snd (get_state_index stub_externals QuantumEnv [(HGate, [0])]) \<and>
   length (state_to_index QuantumEnv) \<le> 100"
proof -
  have r: "reachable stub_externals QuantumEnv" by (rule reachable_QuantumEnv)
  note t = state_index_table_rule [OF r]
  note t_new = t [THEN conjunct2, THEN conjunct2, THEN conjunct2, THEN conjunct1, rule_format]
  note t_same = t [THEN conjunct2, THEN conjunct2, THEN conjunct2, THEN conjunct2,
      THEN conjunct2, THEN conjunct2, THEN conjunct1, rule_format]
  note t_len = t [THEN conjunct2, THEN conjunct2, THEN conjunct2, THEN conjunct2,
      THEN conjunct2, THEN conjunct2, THEN conjunct2, THEN conjunct1]
  have n: "map_of (state_to_index QuantumEnv) (hash_circuit stub_externals []) = None"
    by (simp add: QuantumEnv_def)
  have h: "hash_circuit stub_externals [] = 3"
    by (simp add: hash_circuit_def stub_externals_def)
  have g: "get_state_index stub_externals QuantumEnv [] =
     (QuantumEnv\<lparr>state_to_index := [(3, 0)], index_to_state := [3]\<rparr>, 0)"
    unfolding t_new [OF n] h by (simp add: QuantumEnv_def)
  have d: "draw_text stub_externals [(HGate, [0])] = draw_text stub_externals [(XGate, [1])]"
    by (simp add: stub_externals_def)
  have s: "snd (get_state_index stub_externals
          (fst (get_state_index stub_externals QuantumEnv [(HGate, [0])])) [(XGate, [1])]) =
     snd (get_state_index stub_externals QuantumEnv [(HGate, [0])])"
    using t_same [OF d] by simp
  show ?thesis using r n g d s t_len by (intro conjI)
qed

text \<open>
  Claim C10. In every environment reachable from a new one, the bucket id is below 100 and
  every state index returned by \<^verbatim>\<open>get_state_index\<close>, by \<^verbatim>\<open>reset\<close> and by a \<^verbatim>\<open>step\<close>
  that returns is below 100: the index of a bucket seen for the first time is the number of
  distinct buckets seen before, at most 99, and the index of a known bucket is one of the
  earlier ones. Hence every returned state index is a row of the table of an agent made
  with \<^verbatim>\<open>state_size = 100\<close>.
\<close>

theorem state_index_in_bounds:
  assumes "reachable X e"
  shows "hash_circuit X c < 100 \<and>
         snd (get_state_index X e c) < 100 \<and>
         snd (reset X e) < 100 \<and>
         (\<forall>g qs e' i r d. step X e g qs = Inr (e', i, r, d) \<longrightarrow> i < 100) \<and>
         (map_of (state_to_index e) (hash_circuit X c) = None \<longrightarrow>
            snd (get_state_index X e c) = card (set (index_to_state e)) \<and>
            card (set (index_to_state e)) < 100) \<and>
         snd (get_state_index X e c) < length (q_table (QLearningAgent 100 m al ga ep de em))"
proof -
  have inv: "table_inv e" using assms by (rule reachable_inv)
  have g: "\<And>c. snd (get_state_index X e c) < 100"
    using inv by (rule get_state_index_lt_100)
  have s: "\<forall>g qs e' i r d. step X e g qs = Inr (e', i, r, d) \<longrightarrow> i < 100"
    using step_Inr(3) g by blast
  have n: "map_of (state_to_index e) (hash_circuit X c) = None \<longrightarrow>
            snd (get_state_index X e c) = card (set (index_to_state e)) \<and>
            card (set (index_to_state e)) < 100"
  proof
    assume "map_of (state_to_index e) (hash_circuit X c) = None"
    then have "snd (get_state_index X e c) = length (state_to_index e)"
      by (simp add: get_state_index_new)
    moreover have "length (state_to_index e) = length (index_to_state e)"
      using inv by (metis length_map table_inv_def)
    moreover have "card (set (index_to_state e)) = length (index_to_state e)"
      using inv by (simp add: table_inv_def distinct_card)
    ultimately show "snd (get_state_index X e c) = card (set (index_to_state e)) \<and>
            card (set (index_to_state e)) < 100"
      using g [of c] by simp
  qed
  have q: "length (q_table (QLearningAgent 100 m al ga ep de em)) = 100"
    by (simp add: QLearningAgent_def np_zeros_def)
  show ?thesis using g s n q by (simp add: hash_circuit_lt reset_snd)
qed

text \<open>
  The bound at a new environment with the stand-in collaborators: \<^verbatim>\<open>reset()\<close> returns 0,
  the first bucket.
\<close>

theorem state_index_in_bounds_witness:
  "reachable stub_externals QuantumEnv \<and>
   map_of (state_to_index QuantumEnv) (hash_circuit stub_externals []) = None \<and>
   snd (get_state_index stub_externals QuantumEnv []) = card (set (index_to_state QuantumEnv)) \<and>
   snd (reset stub_externals QuantumEnv) < 100 \<and>
   snd (get_state_index stub_externals QuantumEnv [])
     < length (q_table (QLearningAgent 100 14 0.05 0.95 0.9 0.99 0.01))"
proof -
  have r: "reachable stub_externals QuantumEnv" by (rule reachable_QuantumEnv)
  have n: "map_of (state_to_index QuantumEnv) (hash_circuit stub_externals []) = None"
    by (simp add: QuantumEnv_def)
  note t = state_index_in_bounds [OF r, where c = "[]" and m = 14 and al = "0.05"
      and ga = "0.95" and ep = "0.9" and de = "0.99" and em = "0.01"]
  note t_reset = t [THEN conjunct2, THEN conjunct2, THEN conjunct1]
  note t_new = t [THEN conjunct2, THEN conjunct2, THEN conjunct2, THEN conjunct2,
      THEN conjunct1, rule_format, OF n, THEN conjunct1]
  note t_row = t [THEN conjunct2, THEN conjunct2, THEN conjunct2, THEN conjunct2, THEN conjunct2]
  show ?thesis using r n t_new t_reset t_row by (intro conjI)
qed

section \<open>Properties of the reward\<close>

subsection \<open>The matrix pipeline computes the trace of the product\<close>

lemma sum_list_upt: "sum_list (map f [0..<n]) = (\<Sum>i<n. f i)"
  by (simp add: interv_sum_list_conv_sum_set_nat atLeast0LessThan)

lemma dot_sum:
  assumes "length xs = n" and "length ys = n"
  shows "dot xs ys = (\<Sum>k<n. xs ! k * ys ! k)"
proof -
  have "sum_list (map2 (*) xs ys) = (\<Sum>k = 0..<length (map2 (*) xs ys). map2 (*) xs ys ! k)"
    by (rule sum_list_sum_nth)
  also have "\<dots> = (\<Sum>k<n. xs ! k * ys ! k)"
    using assms by (intro sum.cong) (auto simp: atLeast0LessThan)
  finally show ?thesis by (simp add: dot_def)
qed

lemma is_square_row: "is_square n m \<Longrightarrow> k < n \<Longrightarrow> length (m ! k) = n"
  by (auto simp: is_square_def list_all_length)

lemma is_square_ncols: "is_square n m \<Longrightarrow> ncols m = n"
  by (cases m) (auto simp: is_square_def ncols_def)

lemma is_square_nrows: "is_square n m \<Longrightarrow> nrows m = n"
  by (simp add: is_square_def nrows_def)

lemma is_square_conj: "is_square n m \<Longrightarrow> is_square n (mat_conj m)"
  by (simp add: is_square_def mat_conj_def list_all_length)

lemma is_square_T: "is_square n m \<Longrightarrow> is_square n (mat_T m)"
  by (simp add: is_square_def mat_T_def mat_column_def list_all_length is_square_ncols)

lemma mat_T_nth:
  assumes "is_square n m" and "i < n" and "k < n"
  shows "mat_T m ! i ! k = m ! k ! i"
proof -
  have nc: "ncols m = n" using assms(1) by (rule is_square_ncols)
  have len: "length m = n" using assms(1) by (simp add: is_square_def)
  show ?thesis using assms(2,3) by (simp add: mat_T_def mat_column_def nc len)
qed

lemma mat_conj_nth:
  assumes "is_square n m" and "i < n" and "k < n"
  shows "mat_conj m ! i ! k = cnj (m ! i ! k)"
  using assms by (simp add: mat_conj_def is_square_def list_all_length)

lemma mat_mul_square:
  assumes "is_square n a" and "is_square n b"
  shows "\<exists>p. mat_mul a b = Inr p \<and> is_square n p \<and>
             (\<forall>i<n. \<forall>j<n. p ! i ! j = (\<Sum>k<n. a ! i ! k * b ! k ! j))"
proof -
  let ?p = "map (\<lambda>r. map (\<lambda>j. dot r (mat_column b j)) [0..<ncols b]) a"
  have eq: "mat_mul a b = Inr ?p"
    using assms by (simp add: mat_mul_def is_square_ncols is_square_nrows)
  have sq: "is_square n ?p"
    using assms by (simp add: is_square_def list_all_length is_square_ncols)
  have entries: "\<forall>i<n. \<forall>j<n. ?p ! i ! j = (\<Sum>k<n. a ! i ! k * b ! k ! j)"
  proof (intro allI impI)
    fix i j assume i: "i < n" and j: "j < n"
    have la: "length (a ! i) = n" using assms(1) i by (rule is_square_row)
    have lc: "length (mat_column b j) = n"
      using assms(2) by (simp add: mat_column_def is_square_def)
    have ncb: "ncols b = n" using assms(2) by (rule is_square_ncols)
    have lena: "length a = n" using assms(1) by (simp add: is_square_def)
    have "?p ! i ! j = dot (a ! i) (mat_column b j)"
      using i j by (simp add: ncb lena)
    also have "\<dots> = (\<Sum>k<n. a ! i ! k * mat_column b j ! k)"
      using la lc by (rule dot_sum)
    also have "\<dots> = (\<Sum>k<n. a ! i ! k * b ! k ! j)"
      using assms(2) by (intro sum.cong) (simp_all add: mat_column_def is_square_def)
    finally show "?p ! i ! j = (\<Sum>k<n. a ! i ! k * b ! k ! j)" .
  qed
  show ?thesis using eq sq entries by blast
qed

lemma mat_trace_square:
  assumes "is_square n p"
  shows "mat_trace p = (\<Sum>i<n. p ! i ! i)"
  using assms by (simp add: mat_trace_def is_square_ncols is_square_nrows sum_list_upt)

lemma fidelity_square:
  assumes "is_square n u" and "is_square n t"
  shows "fidelity q u t =
           Inr (cmod (\<Sum>i<n. \<Sum>k<n. cnj (u ! k ! i) * t ! k ! i) / 2 ^ q)"
proof -
  let ?a = "mat_T (mat_conj u)"
  have sa: "is_square n ?a" using assms(1) by (intro is_square_T is_square_conj)
  obtain p where p: "mat_mul ?a t = Inr p" "is_square n p"
      "\<forall>i<n. \<forall>j<n. p ! i ! j = (\<Sum>k<n. ?a ! i ! k * t ! k ! j)"
    using mat_mul_square [OF sa assms(2)] by blast
  have cell: "?a ! i ! k = cnj (u ! k ! i)" if "i < n" "k < n" for i k
  proof -
    have "?a ! i ! k = mat_conj u ! k ! i"
      using is_square_conj [OF assms(1)] that by (rule mat_T_nth)
    also have "\<dots> = cnj (u ! k ! i)" using assms(1) that(2) that(1) by (rule mat_conj_nth)
    finally show ?thesis .
  qed
  have "mat_trace p = (\<Sum>i<n. p ! i ! i)" using p(2) by (rule mat_trace_square)
  also have "\<dots> = (\<Sum>i<n. \<Sum>k<n. ?a ! i ! k * t ! k ! i)"
    using p(3) by (intro sum.cong) simp_all
  also have "\<dots> = (\<Sum>i<n. \<Sum>k<n. cnj (u ! k ! i) * t ! k ! i)"
    by (intro sum.cong) (simp_all add: cell)
  finally have "mat_trace p = (\<Sum>i<n. \<Sum>k<n. cnj (u ! k ! i) * t ! k ! i)" .
  then show ?thesis using p(1) by (simp add: fidelity_def)
qed

subsection \<open>The reward\<close>

lemma reward_of_fidelity:
  assumes "fidelity (num_qubits e) (get_unitary X (circuit e)) target = Inr f"
  shows "reward X e target =
           Inr (- 5 * int (circuit_size (circuit e)) + (if 0.99 < f then 100 else 0), 0.99 < f)"
  using assms by (simp add: reward_def Let_def)

lemma reward_Inr:
  assumes "reward X e target = Inr (r, d)"
  shows "\<exists>f. fidelity (num_qubits e) (get_unitary X (circuit e)) target = Inr f \<and>
             d = (0.99 < f) \<and>
             r = - 5 * int (circuit_size (circuit e)) + (if d then 100 else 0)"
proof (cases "fidelity (num_qubits e) (get_unitary X (circuit e)) target")
  case (Inl err)
  then show ?thesis using assms by (simp add: reward_def Let_def)
next
  case (Inr f)
  then show ?thesis using assms reward_of_fidelity [OF Inr] by (auto split: if_splits)
qed

lemma step_reward:
  assumes "step X e g qs = Inr (e', i, r, d)"
  shows "circuit e' = circuit e @ [(g, qs)]"
    and "r = - 5 * (int (circuit_size (circuit e)) + 1) + (if d then 100 else 0)"
proof -
  show c: "circuit e' = circuit e @ [(g, qs)]"
    using step_Inr(2) [OF assms] by simp
  obtain f where "r = - 5 * int (circuit_size (circuit e')) + (if d then 100 else 0)"
    using reward_Inr [OF step_Inr(4) [OF assms]] by blast
  then show "r = - 5 * (int (circuit_size (circuit e)) + 1) + (if d then 100 else 0)"
    using c by (simp add: circuit_size_def)
qed

lemma upt_0_4: "[0..<4] = [0, 1, 2, 3]"
  by code_simp

lemma identity_matrix_4:
  "identity_matrix 4 = [[1, 0, 0, 0], [0, 1, 0, 0], [0, 0, 1, 0], [0, 0, 0, 1]]"
  by (simp add: identity_matrix_def upt_0_4)

lemma is_square_identity_4: "is_square 4 (identity_matrix 4)"
  by (simp add: is_square_def identity_matrix_4)

lemma is_square_iswap: "is_square 4 iswap_matrix"
  by (simp add: is_square_def iswap_matrix_def)

lemma fidelity_identity_iswap: "fidelity 2 (identity_matrix 4) iswap_matrix = Inr (1 / 2)"
  by (simp add: fidelity_def mat_mul_def mat_T_def mat_conj_def mat_column_def dot_def
      mat_trace_def ncols_def nrows_def identity_matrix_4 iswap_matrix_def upt_0_4)

lemma fidelity_identity_identity:
  "fidelity 2 (identity_matrix 4) (identity_matrix 4) = Inr 1"
  by (simp add: fidelity_def mat_mul_def mat_T_def mat_conj_def mat_column_def dot_def
      mat_trace_def ncols_def nrows_def identity_matrix_4 upt_0_4)

text \<open>
  Claim C2. When the simulator's unitary and the target are square arrays of the same side
  \<open>n\<close>, \<^verbatim>\<open>_reward\<close> returns normally; the fidelity it computes is
  \<open>|trace(U\<^sup>\<dagger> T)| / 2 ^ num_qubits\<close>, the trace written out as the double sum of
  \<open>cnj (U[k][i]) * T[k][i]\<close>; the reward is \<open>-5\<close> times the number of gates of the
  circuit, plus 100 exactly when the fidelity exceeds 0.99, and the done flag is true
  exactly in that case. The penalty is that of the whole circuit: the reward returned by a
  \<^verbatim>\<open>step\<close> on a circuit of \<open>k\<close> gates is \<open>-5 * (k + 1)\<close>, plus 100 when done.
\<close>

theorem reward_rule:
  "(is_square n (get_unitary X (circuit e)) \<and> is_square n target \<longrightarrow>
      (\<exists>f. fidelity (num_qubits e) (get_unitary X (circuit e)) target = Inr f \<and>
           f = cmod (\<Sum>i<n. \<Sum>k<n. cnj (get_unitary X (circuit e) ! k ! i) * target ! k ! i)
                 / 2 ^ num_qubits e \<and>
           reward X e target =
             Inr (- 5 * int (circuit_size (circuit e)) + (if 0.99 < f then 100 else 0),
                  0.99 < f))) \<and>
   (\<forall>r d. reward X e target = Inr (r, d) \<longrightarrow>
        (\<exists>f. fidelity (num_qubits e) (get_unitary X (circuit e)) target = Inr f \<and>
             d = (0.99 < f) \<and>
             r = - 5 * int (circuit_size (circuit e)) + (if d then 100 else 0))) \<and>
   (\<forall>g qs e' i r d. step X e g qs = Inr (e', i, r, d) \<longrightarrow>
        circuit e' = circuit e @ [(g, qs)] \<and>
        r = - 5 * (int (circuit_size (circuit e)) + 1) + (if d then 100 else 0))"
proof (intro conjI impI allI)
  assume sq: "is_square n (get_unitary X (circuit e)) \<and> is_square n target"
  let ?f = "cmod (\<Sum>i<n. \<Sum>k<n. cnj (get_unitary X (circuit e) ! k ! i) * target ! k ! i)
                 / 2 ^ num_qubits e"
  have f: "fidelity (num_qubits e) (get_unitary X (circuit e)) target = Inr ?f"
    using sq by (intro fidelity_square) simp_all
  show "\<exists>f. fidelity (num_qubits e) (get_unitary X (circuit e)) target = Inr f \<and>
           f = cmod (\<Sum>i<n. \<Sum>k<n. cnj (get_unitary X (circuit e) ! k ! i) * target ! k ! i)
                 / 2 ^ num_qubits e \<and>
           reward X e target =
             Inr (- 5 * int (circuit_size (circuit e)) + (if 0.99 < f then 100 else 0),
                  0.99 < f)"
    using f reward_of_fidelity [OF f] by (intro exI [of _ ?f] conjI) simp_all
next
  fix r d assume "reward X e target = Inr (r, d)"
  then show "\<exists>f. fidelity (num_qubits e) (get_unitary X (circuit e)) target = Inr f \<and>
             d = (0.99 < f) \<and>
             r = - 5 * int (circuit_size (circuit e)) + (if d then 100 else 0)"
    by (rule reward_Inr)
next
  fix g qs e' i r d assume s: "step X e g qs = Inr (e', i, r, d)"
  show "circuit e' = circuit e @ [(g, qs)]" using s by (rule step_reward(1))
  show "r = - 5 * (int (circuit_size (circuit e)) + 1) + (if d then 100 else 0)"
    using s by (rule step_reward(2))
qed

text \<open>
  The rule on a circuit of two X gates on qubit 0, whose unitary is the identity: against
  the identity as target the fidelity is 1, so the reward is \<open>-10 + 100\<close> and done is true;
  against the iSWAP target the fidelity is 1/2, so the reward is \<open>-10\<close> and done is false.
\<close>

theorem reward_rule_witness:
  "reward stub_externals (QuantumEnv\<lparr>circuit := [(XGate, [0]), (XGate, [0])]\<rparr>)
       (identity_matrix 4) = Inr (90, True) \<and>
   reward stub_externals (QuantumEnv\<lparr>circuit := [(XGate, [0]), (XGate, [0])]\<rparr>)
       iswap_matrix = Inr (- 10, False)"
proof -
  let ?e = "QuantumEnv\<lparr>circuit := [(XGate, [0]), (XGate, [0])]\<rparr>"
  have u: "get_unitary stub_externals (circuit ?e) = identity_matrix 4"
    by (simp add: stub_externals_def)
  have nq: "num_qubits ?e = 2" by (simp add: QuantumEnv_def)
  have sz: "circuit_size (circuit ?e) = 2" by (simp add: circuit_size_def)
  have sq1: "is_square 4 (get_unitary stub_externals (circuit ?e)) \<and> is_square 4 (identity_matrix 4)"
    unfolding u using is_square_identity_4 by simp
  have sq2: "is_square 4 (get_unitary stub_externals (circuit ?e)) \<and> is_square 4 iswap_matrix"
    unfolding u using is_square_identity_4 is_square_iswap by simp
  obtain f1 where f1: "fidelity (num_qubits ?e) (get_unitary stub_externals (circuit ?e))
         (identity_matrix 4) = Inr f1"
      "reward stub_externals ?e (identity_matrix 4) =
         Inr (- 5 * int (circuit_size (circuit ?e)) + (if 0.99 < f1 then 100 else 0), 0.99 < f1)"
    using reward_rule [of 4 stub_externals ?e "identity_matrix 4"] sq1 by blast
  obtain f2 where f2: "fidelity (num_qubits ?e) (get_unitary stub_externals (circuit ?e))
         iswap_matrix = Inr f2"
      "reward stub_externals ?e iswap_matrix =
         Inr (- 5 * int (circuit_size (circuit ?e)) + (if 0.99 < f2 then 100 else 0), 0.99 < f2)"
    using reward_rule [of 4 stub_externals ?e iswap_matrix] sq2 by blast
  have "f1 = 1" using f1(1) unfolding u nq fidelity_identity_identity by simp
  moreover have "f2 = 1 / 2" using f2(1) unfolding u nq fidelity_identity_iswap by simp
  ultimately show ?thesis using f1(2) f2(2) unfolding sz by simp
qed

text \<open>
  Claim C9. For an environment whose circuit is empty, with two qubits, a simulator that
  returns the 4 by 4 identity for the empty circuit, and the iSWAP target: the fidelity is
  \<open>|1 + 0 + 0 + 1| / 4 = 1/2\<close>, which does not exceed 0.99, so \<^verbatim>\<open>_reward\<close> returns the
  reward \<open>-5 * 0 = 0\<close> and done = false.
\<close>

theorem reward_empty_circuit_iswap:
  assumes "circuit e = []" and "num_qubits e = 2"
    and "get_unitary X [] = identity_matrix 4"
  shows "fidelity (num_qubits e) (get_unitary X (circuit e)) iswap_matrix = Inr (1 / 2) \<and>
         \<not> (0.99 < (1 / 2 :: real)) \<and>
         reward X e iswap_matrix = Inr (0, False)"
proof -
  have f: "fidelity (num_qubits e) (get_unitary X (circuit e)) iswap_matrix = Inr (1 / 2)"
    using assms by (simp add: fidelity_identity_iswap)
  have "reward X e iswap_matrix = Inr (0, False)"
    using reward_of_fidelity [OF f] assms(1) by (simp add: circuit_size_def)
  then show ?thesis using f by simp
qed

text \<open>
  The case of a new environment after \<^verbatim>\<open>reset()\<close>, with the stand-in collaborators and
  the environment's own target.
\<close>

theorem reward_empty_circuit_iswap_witness:
  "target_unitary (fst (reset stub_externals QuantumEnv)) = iswap_matrix \<and>
   circuit (fst (reset stub_externals QuantumEnv)) = [] \<and>
   reward stub_externals (fst (reset stub_externals QuantumEnv))
     (target_unitary (fst (reset stub_externals QuantumEnv))) = Inr (0, False)"
proof -
  let ?e = "fst (reset stub_externals QuantumEnv)"
  have c: "circuit ?e = []" by (rule reset_circuit)
  have q: "num_qubits ?e = 2" by (simp add: reset_frame QuantumEnv_def)
  have t: "target_unitary ?e = iswap_matrix" by (simp add: reset_frame QuantumEnv_def)
  have u: "get_unitary stub_externals [] = identity_matrix 4"
    by (simp add: stub_externals_def)
  have "reward stub_externals ?e iswap_matrix = Inr (0, False)"
    using reward_empty_circuit_iswap [OF c q u] by blast
  then show ?thesis using c t by simp
qed

section \<open>Properties of the drivers\<close>

subsection \<open>The training loop\<close>

lemma train_steps_unroll:
  assumes "0 < n"
  shows "train_steps X episode rnd i n st =
     (case train_body X episode (rnd i) st of
        Inl err \<Rightarrow> Inl err
      | Inr (Break, st') \<Rightarrow> Inr st'
      | Inr (Continue, st') \<Rightarrow> train_steps X episode rnd (Suc i) (n - 1) st')"
proof (cases n)
  case 0
  with assms show ?thesis by simp
next
  case (Suc m)
  show ?thesis unfolding Suc diff_Suc_1 by simp
qed

lemma train_body_truncates:
  assumes "choose_action (the_agent w) s (fst dr) (snd dr) = Inr ((g, qs), ai)"
    and "step X (the_env w) g qs = Inr (e', ns, r, False)"
    and "10 < circuit_size (circuit e')"
    and "update_q_table (the_agent w) s ai (of_int r) ns = Inr a'"
  shows "train_body X ep dr (w, s, er) =
           Inr (Break, w\<lparr>the_agent := a', the_env := e'\<rparr>, ns, er + r - 100)"
  using assms by (simp add: train_body_def Let_def)

lemma replicate_10: "replicate 10 x = [x, x, x, x, x, x, x, x, x, x]"
  by (simp add: numeral_eq_Suc)

lemma ten_gates_world_reached:
  "train_steps stub_externals 0 (\<lambda>i. (0, 8)) 0 10
     (\<lparr>the_agent = QLearningAgent 100 14 0.05 0.95 0.9 0.99 0.01,
       the_env = fst (reset stub_externals QuantumEnv), console = []\<rparr>, 0, 0) =
   Inr (ten_gates_world, 10, - 275)"
  by (simp add: train_steps_unroll train_body_def choose_action_def QLearningAgent_def
      np_zeros_def possible_actions_def step_def circuit_append_def get_state_index_def
      hash_circuit_def stub_externals_def reward_def update_q_table_def np_max_zeros
      fidelity_identity_iswap circuit_size_def reset_def QuantumEnv_def Let_def
      ten_gates_world_def row_8_def replicate_10 numeral_2_eq_2 [symmetric])

text \<open>The eleventh transition from that world, the one that exceeds ten gates.\<close>

lemma choose_action_ten_gates:
  "choose_action (the_agent ten_gates_world) 10 0 8 = Inr ((XGate, [0]), 8)"
  by (simp add: choose_action_def ten_gates_world_def QLearningAgent_def possible_actions_def)

lemma step_ten_gates:
  "step stub_externals (the_env ten_gates_world) XGate [0] =
     Inr ((the_env ten_gates_world)
            \<lparr>circuit := replicate 10 (XGate, [0]) @ [(XGate, [0])],
             state_to_index := state_to_index (the_env ten_gates_world) @ [(80, 11)],
             index_to_state := index_to_state (the_env ten_gates_world) @ [80]\<rparr>,
          11, - 55, False)"
  by (simp add: step_def circuit_append_def get_state_index_def hash_circuit_def
      stub_externals_def reward_def fidelity_identity_iswap circuit_size_def
      ten_gates_world_def QuantumEnv_def Let_def replicate_10)

lemma q_table_ten_gates:
  "length (q_table (the_agent ten_gates_world)) = 100"
  "q_table (the_agent ten_gates_world) ! 10 = replicate 14 0"
  "q_table (the_agent ten_gates_world) ! 11 = replicate 14 0"
  by (simp_all add: ten_gates_world_def QLearningAgent_def np_zeros_def)

lemma update_ten_gates:
  "update_q_table (the_agent ten_gates_world) 10 8 (- 55) 11 =
     Inr ((the_agent ten_gates_world)
            \<lparr>q_table := (q_table (the_agent ten_gates_world))[10 := row_8 (- (11 / 4))]\<rparr>)"
proof -
  have al: "alpha (the_agent ten_gates_world) = 1 / 20"
    by (simp add: ten_gates_world_def QLearningAgent_def)
  show ?thesis
    by (simp add: update_q_table_def q_table_ten_gates np_max_zeros al row_8_def Let_def)
qed

lemma train_body_ten_gates:
  "train_body stub_externals 0 (0, 8) (ten_gates_world, 10, - 275) =
     Inr (Break,
          ten_gates_world
            \<lparr>the_agent := (the_agent ten_gates_world)
               \<lparr>q_table := (q_table (the_agent ten_gates_world))[10 := row_8 (- (11 / 4))]\<rparr>,
             the_env := (the_env ten_gates_world)
               \<lparr>circuit := replicate 10 (XGate, [0]) @ [(XGate, [0])],
                state_to_index := state_to_index (the_env ten_gates_world) @ [(80, 11)],
                index_to_state := index_to_state (the_env ten_gates_world) @ [80]\<rparr>\<rparr>,
          11, - 430)"
proof -
  have big: "10 < circuit_size (circuit ((the_env ten_gates_world)
            \<lparr>circuit := replicate 10 (XGate, [0]) @ [(XGate, [0])],
             state_to_index := state_to_index (the_env ten_gates_world) @ [(80, 11)],
             index_to_state := index_to_state (the_env ten_gates_world) @ [80]\<rparr>))"
    by (simp add: circuit_size_def)
  have "train_body stub_externals 0 (0, 8) (ten_gates_world, 10, - 275) =
     Inr (Break,
          ten_gates_world
            \<lparr>the_agent := (the_agent ten_gates_world)
               \<lparr>q_table := (q_table (the_agent ten_gates_world))[10 := row_8 (- (11 / 4))]\<rparr>,
             the_env := (the_env ten_gates_world)
               \<lparr>circuit := replicate 10 (XGate, [0]) @ [(XGate, [0])],
                state_to_index := state_to_index (the_env ten_gates_world) @ [(80, 11)],
                index_to_state := index_to_state (the_env ten_gates_world) @ [80]\<rparr>\<rparr>,
          11, - 275 + - 55 - 100)"
    by (rule train_body_truncates [where g = XGate and qs = "[0]" and ai = 8])
       (simp_all add: choose_action_ten_gates step_ten_gates circuit_size_def update_ten_gates)
  then show ?thesis by simp
qed

text \<open>
  Claim C3, as stated, fails in its last part: \<^verbatim>\<open>update_q_table\<close> is called for the
  truncating transition. With the stand-in collaborators, the agent of the entry point and
  draws that always pick the X gate on qubit 0, ten transitions lead to the world
  \<open>ten_gates_world\<close> with episode reward \<open>-275\<close>, in which the cell \<open>Q[10, 8]\<close> is still 0.
  The eleventh transition makes the circuit eleven gates long, ends the loop and takes 100
  off the episode reward (\<open>-275 - 55 - 100 = -430\<close>), and it has updated the cell
  \<open>Q[10, 8]\<close> of the state it left to \<open>0.05 * (-55) = -11/4\<close>.
\<close>

theorem update_q_table_called_on_truncation:
  "train_steps stub_externals 0 (\<lambda>i. (0, 8)) 0 10
     (\<lparr>the_agent = QLearningAgent 100 14 0.05 0.95 0.9 0.99 0.01,
       the_env = fst (reset stub_externals QuantumEnv), console = []\<rparr>, 0, 0) =
     Inr (ten_gates_world, 10, - 275) \<and>
   q_table (the_agent ten_gates_world) ! 10 ! 8 = 0 \<and>
   train_body stub_externals 0 (0, 8) (ten_gates_world, 10, - 275) =
     Inr (Break,
          ten_gates_world
            \<lparr>the_agent := (the_agent ten_gates_world)
               \<lparr>q_table := (q_table (the_agent ten_gates_world))[10 := row_8 (- (11 / 4))]\<rparr>,
             the_env := (the_env ten_gates_world)
               \<lparr>circuit := replicate 10 (XGate, [0]) @ [(XGate, [0])],
                state_to_index := state_to_index (the_env ten_gates_world) @ [(80, 11)],
                index_to_state := index_to_state (the_env ten_gates_world) @ [80]\<rparr>\<rparr>,
          11, - 430) \<and>
   (q_table (the_agent ten_gates_world))[10 := row_8 (- (11 / 4))] ! 10 ! 8 = - (11 / 4) \<and>
   (q_table (the_agent ten_gates_world))[10 := row_8 (- (11 / 4))]
     \<noteq> q_table (the_agent ten_gates_world)"
proof -
  have cell0: "q_table (the_agent ten_gates_world) ! 10 ! 8 = 0"
    by (simp add: q_table_ten_gates)
  have cell1: "(q_table (the_agent ten_gates_world))[10 := row_8 (- (11 / 4))] ! 10 ! 8 = - (11 / 4)"
    by (simp add: q_table_ten_gates row_8_def)
  have neq: "(q_table (the_agent ten_gates_world))[10 := row_8 (- (11 / 4))]
     \<noteq> q_table (the_agent ten_gates_world)"
  proof
    assume "(q_table (the_agent ten_gates_world))[10 := row_8 (- (11 / 4))]
      = q_table (the_agent ten_gates_world)"
    then have "(q_table (the_agent ten_gates_world))[10 := row_8 (- (11 / 4))] ! 10 ! 8
      = q_table (the_agent ten_gates_world) ! 10 ! 8" by simp
    then show False unfolding cell0 cell1 by simp
  qed
  show ?thesis
    using ten_gates_world_reached cell0 train_body_ten_gates cell1 neq by (intro conjI)
qed

text \<open>
  Claim C3, amended. In the body of the training loop, when the action is chosen, the
  \<^verbatim>\<open>step\<close> returns with done = false and a circuit of more than 10 gates, and the
  indices are inside the table, then: \<^verbatim>\<open>update_q_table\<close> is called for this transition
  and returns; the reward it receives is the environment's \<open>-5 * size\<close>, without the
  \<open>-100\<close>; the body ends the loop, whatever the remaining step budget, with the updated
  agent, the new environment and the episode reward \<open>episode_reward + reward - 100\<close>.
\<close>

theorem truncation_rule:
  assumes "choose_action (the_agent w) s (fst (rnd i)) (snd (rnd i)) = Inr ((g, qs), ai)"
    and "step X (the_env w) g qs = Inr (e', ns, r, False)"
    and "10 < circuit_size (circuit e')"
    and "s < length (q_table (the_agent w))"
    and "ai < length (q_table (the_agent w) ! s)"
    and "ns < length (q_table (the_agent w))"
    and "q_table (the_agent w) ! ns \<noteq> []"
  shows "\<exists>a'. update_q_table (the_agent w) s ai (of_int r) ns = Inr a' \<and>
              q_table a' ! s ! ai =
                q_table (the_agent w) ! s ! ai +
                alpha (the_agent w) *
                  (of_int r + gamma (the_agent w) * Max (set (q_table (the_agent w) ! ns))
                   - q_table (the_agent w) ! s ! ai) \<and>
              r = - 5 * int (circuit_size (circuit e')) \<and>
              train_body X ep (rnd i) (w, s, er) =
                Inr (Break, w\<lparr>the_agent := a', the_env := e'\<rparr>, ns, er + r - 100) \<and>
              train_steps X ep rnd i (Suc n) (w, s, er) =
                Inr (w\<lparr>the_agent := a', the_env := e'\<rparr>, ns, er + r - 100)"
proof -
  let ?q = "q_table (the_agent w)"
  let ?new = "?q ! s ! ai +
      alpha (the_agent w) * (of_int r + gamma (the_agent w) * Max (set (?q ! ns)) - ?q ! s ! ai)"
  let ?a = "(the_agent w)\<lparr>q_table := ?q[s := (?q ! s)[ai := ?new]]\<rparr>"
  have up: "update_q_table (the_agent w) s ai (of_int r) ns = Inr ?a"
    using assms(4-7) by (rule update_q_table_general)
  have cell: "q_table ?a ! s ! ai = ?new" using assms(4,5) by simp
  have r: "r = - 5 * int (circuit_size (circuit e'))"
    using step_reward [OF assms(2)] by (simp add: circuit_size_def)
  have body: "train_body X ep (rnd i) (w, s, er) =
                Inr (Break, w\<lparr>the_agent := ?a, the_env := e'\<rparr>, ns, er + r - 100)"
    using assms(1-3) up by (rule train_body_truncates)
  have loop: "train_steps X ep rnd i (Suc n) (w, s, er) =
                Inr (w\<lparr>the_agent := ?a, the_env := e'\<rparr>, ns, er + r - 100)"
    by (simp add: body)
  show ?thesis using up cell r body loop by (intro exI [of _ ?a] conjI)
qed

text \<open>
  The rule at the world after ten X gates, with a step budget of 9990 left: the loop ends
  with episode reward \<open>-430\<close>.
\<close>

theorem truncation_rule_witness:
  "\<exists>a' e'. train_steps stub_externals 0 (\<lambda>i. (0, 8)) 10 (Suc 9989) (ten_gates_world, 10, - 275) =
             Inr (ten_gates_world\<lparr>the_agent := a', the_env := e'\<rparr>, 11, - 430) \<and>
           circuit_size (circuit e') = 11 \<and>
           update_q_table (the_agent ten_gates_world) 10 8 (- 55) 11 = Inr a' \<and>
           q_table a' ! 10 ! 8 = - (11 / 4)"
proof -
  let ?e = "(the_env ten_gates_world)
            \<lparr>circuit := replicate 10 (XGate, [0]) @ [(XGate, [0])],
             state_to_index := state_to_index (the_env ten_gates_world) @ [(80, 11)],
             index_to_state := index_to_state (the_env ten_gates_world) @ [80]\<rparr>"
  have h1: "choose_action (the_agent ten_gates_world) 10 (fst (0::real, 8::nat))
      (snd (0::real, 8::nat)) = Inr ((XGate, [0]), 8)"
    by (simp add: choose_action_ten_gates)
  have h2: "step stub_externals (the_env ten_gates_world) XGate [0] = Inr (?e, 11, - 55, False)"
    by (rule step_ten_gates)
  have h3: "10 < circuit_size (circuit ?e)" by (simp add: circuit_size_def)
  have h4: "10 < length (q_table (the_agent ten_gates_world))"
    and h5: "8 < length (q_table (the_agent ten_gates_world) ! 10)"
    and h6: "11 < length (q_table (the_agent ten_gates_world))"
    and h7: "q_table (the_agent ten_gates_world) ! 11 \<noteq> []"
    by (simp_all add: q_table_ten_gates)
  obtain a' where a': "update_q_table (the_agent ten_gates_world) 10 8 (of_int (- 55)) 11 = Inr a'"
    "train_steps stub_externals 0 (\<lambda>i. (0, 8)) 10 (Suc 9989) (ten_gates_world, 10, - 275) =
       Inr (ten_gates_world\<lparr>the_agent := a', the_env := ?e\<rparr>, 11, - 275 + - 55 - 100)"
    using truncation_rule [where rnd = "\<lambda>i. (0, 8)" and i = 10 and ep = 0 and er = "- 275"
        and n = 9989, OF h1 h2 h3 h4 h5 h6 h7] by blast
  have u: "update_q_table (the_agent ten_gates_world) 10 8 (- 55) 11 = Inr a'"
    using a'(1) by simp
  then have "a' = (the_agent ten_gates_world)
            \<lparr>q_table := (q_table (the_agent ten_gates_world))[10 := row_8 (- (11 / 4))]\<rparr>"
    by (simp add: update_ten_gates)
  then have c: "q_table a' ! 10 ! 8 = - (11 / 4)"
    by (simp add: q_table_ten_gates row_8_def)
  have sz: "circuit_size (circuit ?e) = 11" by (simp add: circuit_size_def)
  have t: "train_steps stub_externals 0 (\<lambda>i. (0, 8)) 10 (Suc 9989) (ten_gates_world, 10, - 275) =
       Inr (ten_gates_world\<lparr>the_agent := a', the_env := ?e\<rparr>, 11, - 430)"
    using a'(2) by simp
  show ?thesis using t sz u c by (intro exI [of _ a'] exI [of _ ?e] conjI)
qed

subsection \<open>The evaluation loop\<close>

lemma call_step_one_argument: "call_step X e [v] = Inl TypeError"
  by simp

lemma test_body_TypeError:
  assumes "choose_action (the_agent w) s (fst dr) (snd dr) = Inr x"
  shows "test_body X dr (w, s) = Inl TypeError"
  using assms by (cases x) (simp add: test_body_def)

lemma test_body_raises: "\<exists>err. test_body X dr (w, s) = Inl err"
proof (cases "choose_action (the_agent w) s (fst dr) (snd dr)")
  case (Inl err)
  then show ?thesis by (simp add: test_body_def)
next
  case (Inr x)
  then show ?thesis using test_body_TypeError by blast
qed

lemma test_steps_raises: "\<exists>err. test_steps X rnd i (Suc n) (w, s) = Inl err"
  using test_body_raises [of X "rnd i" w s] by auto

lemma test_episodes_raises: "\<exists>err. test_episodes X rnd (Suc m) ep (Suc n) w = Inl err"
proof -
  obtain e0 s0 where r0: "reset X (the_env w) = (e0, s0)" by (cases "reset X (the_env w)")
  obtain e1 s1 where r1: "reset X e0 = (e1, s1)" by (cases "reset X e0")
  obtain err where "test_steps X (rnd ep) 0 (Suc m) (w\<lparr>the_env := e1\<rparr>, s1) = Inl err"
    using test_steps_raises by blast
  then show ?thesis using r0 r1 by simp
qed

text \<open>
  Whatever the agent, the environment, the collaborators and the draws: with at least one
  episode and at least one step, \<^verbatim>\<open>test_agent\<close> raises in its first step and never
  returns; when \<^verbatim>\<open>choose_action\<close> returns, what it raises is the \<^verbatim>\<open>TypeError\<close> of the
  call of \<^verbatim>\<open>environment.step\<close> with one argument.
\<close>

lemma test_agent_never_returns:
  assumes "0 < episodes" and "0 < max_steps"
  shows "\<exists>err. test_agent X rnd a e episodes max_steps = Inl err"
proof -
  obtain n m where nm: "episodes = Suc n" "max_steps = Suc m"
    using assms by (metis Suc_pred)
  show ?thesis unfolding test_agent_def nm by (rule test_episodes_raises)
qed

text \<open>
  Claim C4 fails on the code: \<^verbatim>\<open>test_agent\<close> does not invoke the environment's step
  with the chosen gate and its qubit targets. With the agent of the entry point, a new
  environment, the stand-in collaborators, one episode and one step, \<^verbatim>\<open>test_agent\<close>
  raises \<^verbatim>\<open>TypeError\<close> at \<^verbatim>\<open>environment.step(action)\<close>, while \<^verbatim>\<open>train_agent\<close> on the same
  input returns, its one step having appended the chosen gate \<open>(HGate, [0])\<close> to the circuit.
\<close>

theorem test_agent_raises_TypeError:
  "test_agent stub_externals (\<lambda>episode i. (1 / 2, 0))
     (QLearningAgent 100 14 0.05 0.95 0.9 0.99 0.01) QuantumEnv 1 1 = Inl TypeError \<and>
   (case train_agent stub_externals (\<lambda>episode i. (1 / 2, 0))
           (QLearningAgent 100 14 0.05 0.95 0.9 0.99 0.01) QuantumEnv 1 1 of
      Inl err \<Rightarrow> False
    | Inr w \<Rightarrow> circuit (the_env w) = [(HGate, [0])])"
proof (intro conjI)
  show "test_agent stub_externals (\<lambda>episode i. (1 / 2, 0))
     (QLearningAgent 100 14 0.05 0.95 0.9 0.99 0.01) QuantumEnv 1 1 = Inl TypeError"
    by (simp add: test_agent_def test_body_def choose_action_def QLearningAgent_def
        possible_actions_def reset_def get_state_index_def hash_circuit_def
        stub_externals_def QuantumEnv_def Let_def)
  show "case train_agent stub_externals (\<lambda>episode i. (1 / 2, 0))
           (QLearningAgent 100 14 0.05 0.95 0.9 0.99 0.01) QuantumEnv 1 1 of
      Inl err \<Rightarrow> False
    | Inr w \<Rightarrow> circuit (the_env w) = [(HGate, [0])]"
    by (simp add: train_agent_def train_body_def choose_action_def QLearningAgent_def
        np_zeros_def possible_actions_def step_def circuit_append_def get_state_index_def
        hash_circuit_def stub_externals_def reward_def update_q_table_def np_max_zeros
        fidelity_identity_iswap circuit_size_def reset_def QuantumEnv_def Let_def
        decay_exploration_def)
qed

end
